theory Spec2Isabelle
  imports Main "HOL-Library.AList" "HOL-Library.Multiset"
begin

section \<open>Data model\<close>

text \<open>
  The plugin (\<^verbatim>\<open>src/out/src/index.js\<close>) sits between the TypeScript language service
  (the host) and the tslint engine. Both are external; their objects are modelled by the
  properties and methods the plugin reads.
\<close>

subsection \<open>Replacements, fixes and rule failures (tslint objects)\<close>

text \<open>
  A tslint \<^verbatim>\<open>Replacement\<close>. The plugin reads the properties \<^verbatim>\<open>start\<close>, \<^verbatim>\<open>length\<close>,
  \<^verbatim>\<open>end\<close> and \<^verbatim>\<open>text\<close>; tslint computes \<^verbatim>\<open>end\<close> as \<^verbatim>\<open>start + length\<close>, which the
  plugin does not rely on, so the four properties are kept apart here.
\<close>

record replacement =
  rep_start :: int
  rep_length :: int
  rep_end :: int
  rep_text :: string

text \<open>
  The value of \<^verbatim>\<open>getFix()\<close> has had several shapes: in tslint 4 an object with a
  \<^verbatim>\<open>replacements\<close> property, in tslint 5 a single \<^verbatim>\<open>Replacement\<close> or an array of them.
\<close>

datatype tslint_fix =
    FixObject "replacement list"
  | FixArray "replacement list"
  | FixSingle replacement

text \<open>
  A tslint \<^verbatim>\<open>RuleFailure\<close>, by the methods the plugin calls. \<open>startPosition\<close> and
  \<open>endPosition\<close> are \<^verbatim>\<open>getStartPosition().getPosition()\<close> and
  \<^verbatim>\<open>getEndPosition().getPosition()\<close>, \<open>startLine\<close> is
  \<^verbatim>\<open>getStartPosition().getLineAndCharacter().line\<close>. \<open>getRuleSeverity\<close> is \<open>None\<close>
  where the method is missing (tslint before 5), \<open>getFix\<close> is \<open>None\<close> where the method
  is missing or returns nothing.
\<close>

record problem =
  getFileName :: string
  getRuleName :: "string option"
  getFailure :: string
  startPosition :: int
  startLine :: nat
  endPosition :: int
  getRuleSeverity :: "string option"
  getFix :: "tslint_fix option"

subsection \<open>Host objects (TypeScript language service)\<close>

record source_file =
  sf_fileName :: string
  getLineStarts :: "int list"

datatype category = Warning | Error

record diagnostic =
  diag_file :: "source_file option"
  diag_start :: int
  diag_length :: int
  messageText :: string
  diag_category :: category
  diag_source :: "string option"
  diag_code :: int

text \<open>
  A text change; the start of the span is \<open>None\<close> where the JavaScript value is
  \<^verbatim>\<open>undefined\<close> (an array read out of range).
\<close>

record text_change =
  newText :: string
  span_start :: "int option"
  span_length :: int

record file_text_changes =
  ftc_fileName :: string
  textChanges :: "text_change list"

record code_action =
  description :: string
  changes :: "file_text_changes list"

section \<open>The fix synthesizer\<close>

definition convertReplacementToTextChange :: "replacement \<Rightarrow> text_change" where
  "convertReplacementToTextChange repl =
     \<lparr>newText = rep_text repl, span_start = Some (rep_start repl), span_length = rep_length repl\<rparr>"

fun replacementsAreEmpty :: "tslint_fix \<Rightarrow> bool" where
  "replacementsAreEmpty (FixObject rs) = (length rs = 0)"
| "replacementsAreEmpty (FixArray rs) = (length rs = 0)"
| "replacementsAreEmpty (FixSingle r) = False"

fun getReplacements :: "tslint_fix \<Rightarrow> replacement list" where
  "getReplacements (FixObject rs) = rs"
| "getReplacements (FixSingle r) = [r]"
| "getReplacements (FixArray rs) = rs"

text \<open>
  In the functions below \<open>None\<close> stands for a \<^verbatim>\<open>TypeError\<close> thrown by the JavaScript
  engine: a property read on \<^verbatim>\<open>null\<close> or \<^verbatim>\<open>undefined\<close>.

  \<^verbatim>\<open>getReplacement(failure, at)\<close> is only ever used as \<^verbatim>\<open>getReplacement(x, 0).start\<close>;
  \<open>getReplacement\<close> is \<open>None\<close> where that expression throws: the failure has no fix, or
  its replacement list has no element at the index.
\<close>

definition getReplacement :: "problem \<Rightarrow> nat \<Rightarrow> replacement option" where
  "getReplacement failure at =
     (case getFix failure of
        None \<Rightarrow> None
      | Some fx \<Rightarrow>
          (if at < length (getReplacements fx) then Some (getReplacements fx ! at) else None))"

text \<open>The sort key of the comparator \<^verbatim>\<open>getReplacement(a, 0).start - getReplacement(b, 0).start\<close>.\<close>

definition firstStart :: "problem \<Rightarrow> int" where
  "firstStart failure = (case getReplacement failure 0 of Some r \<Rightarrow> rep_start r | None \<Rightarrow> 0)"

text \<open>
  \<^verbatim>\<open>Array.prototype.sort\<close> with the comparator above: ascending by the start of the first
  replacement, stable (ECMAScript 2019). The comparator is not called on an array of
  fewer than two elements; on a longer one it is called on every element, and throws for
  a failure without a first replacement.
\<close>

definition sortFailures :: "problem list \<Rightarrow> problem list option" where
  "sortFailures failures =
     (if length failures < 2 then Some failures
      else if list_all (\<lambda>f. getReplacement f 0 \<noteq> None) failures
           then Some (sort_key firstStart failures)
           else None)"

text \<open>
  The loop of \<^verbatim>\<open>getNonOverlappingReplacements\<close>, from index \<open>i\<close> on, with the array
  \<^verbatim>\<open>nonOverlapping\<close> as accumulator. \<^verbatim>\<open>overlaps(a, b)\<close> is \<^verbatim>\<open>a.end >= b.start\<close>, with
  \<^verbatim>\<open>a\<close> the last element accumulated and \<^verbatim>\<open>b\<close> the first replacement of the failure.
\<close>

definition overlaps :: "replacement \<Rightarrow> replacement \<Rightarrow> bool" where
  "overlaps a b = (rep_end a \<ge> rep_start b)"

fun nonOverlappingLoop :: "nat \<Rightarrow> problem list \<Rightarrow> replacement list \<Rightarrow> replacement list option" where
  "nonOverlappingLoop i [] nonOverlapping = Some nonOverlapping"
| "nonOverlappingLoop i (failure # rest) nonOverlapping =
     (case getFix failure of
        None \<Rightarrow> None
      | Some fx \<Rightarrow>
          (let replacements = getReplacements fx in
           if i = 0 then nonOverlappingLoop (Suc i) rest (nonOverlapping @ replacements)
           else if nonOverlapping = [] then None
           else (case replacements of
                   [] \<Rightarrow> None
                 | b # _ \<Rightarrow>
                     (if \<not> overlaps (last nonOverlapping) b
                      then nonOverlappingLoop (Suc i) rest (nonOverlapping @ replacements)
                      else nonOverlappingLoop (Suc i) rest nonOverlapping))))"

text \<open>
  The per-file part of the registry is a JavaScript \<^verbatim>\<open>Map\<close> from span key to failure:
  an association list in insertion order; \<^verbatim>\<open>values()\<close> is its second components.
\<close>

type_synonym document_fixes = "(string \<times> problem) list"

definition getNonOverlappingReplacements :: "document_fixes \<Rightarrow> replacement list option" where
  "getNonOverlappingReplacements documentFixes =
     (case sortFailures (map snd documentFixes) of
        None \<Rightarrow> None
      | Some sortedFailures \<Rightarrow> nonOverlappingLoop 0 sortedFailures [])"

text \<open>\<^verbatim>\<open>problemToFileTextChange\<close> throws where the failure has no fix.\<close>

definition problemToFileTextChange :: "problem \<Rightarrow> string \<Rightarrow> file_text_changes option" where
  "problemToFileTextChange problem fileName =
     (case getFix problem of
        None \<Rightarrow> None
      | Some fx \<Rightarrow>
          Some \<lparr>ftc_fileName = fileName,
                textChanges = map convertReplacementToTextChange (getReplacements fx)\<rparr>)"

text \<open>A rule name inside a template string; \<^verbatim>\<open>null\<close> prints as \<^verbatim>\<open>null\<close>.\<close>

definition ruleNameText :: "string option \<Rightarrow> string" where
  "ruleNameText ruleName = (case ruleName of None \<Rightarrow> ''null'' | Some r \<Rightarrow> r)"

definition quoted :: "string \<Rightarrow> string" where
  "quoted s = [CHR 0x27] @ s @ [CHR 0x27]"

definition addRuleFailureFix :: "code_action list \<Rightarrow> problem \<Rightarrow> string \<Rightarrow> code_action list option" where
  "addRuleFailureFix fixes problem fileName =
     (case problemToFileTextChange problem fileName of
        None \<Rightarrow> None
      | Some change \<Rightarrow>
          Some (fixes @ [\<lparr>description = ''Fix '' @ quoted (ruleNameText (getRuleName problem)),
                          changes = [change]\<rparr>]))"

text \<open>
  The loop of \<^verbatim>\<open>addRuleFailureFixAll\<close> over \<^verbatim>\<open>problems.values()\<close>; \<open>collected\<close> is
  its array \<^verbatim>\<open>changes\<close>.
\<close>

fun ruleFailureChanges ::
  "string option \<Rightarrow> string \<Rightarrow> problem list \<Rightarrow> file_text_changes list \<Rightarrow> file_text_changes list option" where
  "ruleFailureChanges ruleName fileName [] collected = Some collected"
| "ruleFailureChanges ruleName fileName (problem # rest) collected =
     (if getRuleName problem = ruleName
      then (case problemToFileTextChange problem fileName of
              None \<Rightarrow> None
            | Some change \<Rightarrow> ruleFailureChanges ruleName fileName rest (collected @ [change]))
      else ruleFailureChanges ruleName fileName rest collected)"

definition addRuleFailureFixAll ::
  "code_action list \<Rightarrow> string option \<Rightarrow> document_fixes \<Rightarrow> string \<Rightarrow> code_action list option" where
  "addRuleFailureFixAll fixes ruleName problems fileName =
     (case ruleFailureChanges ruleName fileName (map snd problems) [] of
        None \<Rightarrow> None
      | Some collected \<Rightarrow>
          (if length collected < 2 then Some fixes
           else Some (fixes @ [\<lparr>description = ''Fix all '' @ quoted (ruleNameText ruleName),
                                changes = collected\<rparr>])))"

text \<open>An array read \<^verbatim>\<open>xs[i]\<close>: \<^verbatim>\<open>undefined\<close> out of range.\<close>

definition nth_opt :: "'a list \<Rightarrow> nat \<Rightarrow> 'a option" where
  "nth_opt xs i = (if i < length xs then Some (xs ! i) else None)"

text \<open>
  \<^verbatim>\<open>addDisableRuleFix\<close> throws where the host has no source file for the name
  (\<^verbatim>\<open>file.getLineStarts()\<close> on \<^verbatim>\<open>undefined\<close>).
\<close>

definition addDisableRuleFix ::
  "code_action list \<Rightarrow> problem \<Rightarrow> string \<Rightarrow> source_file option \<Rightarrow> code_action list option" where
  "addDisableRuleFix fixes problem fileName file =
     (case file of
        None \<Rightarrow> None
      | Some f \<Rightarrow>
          Some (fixes @
            [\<lparr>description = ''Disable rule '' @ quoted (ruleNameText (getRuleName problem)),
              changes =
                [\<lparr>ftc_fileName = fileName,
                  textChanges =
                    [\<lparr>newText = ''// tslint:disable-next-line:'' @ ruleNameText (getRuleName problem)
                                  @ [CHR 0x0A],
                      span_start = nth_opt (getLineStarts f) (startLine problem),
                      span_length = 0\<rparr>]\<rparr>]\<rparr>]))"

definition addAllAutoFixable ::
  "code_action list \<Rightarrow> document_fixes \<Rightarrow> string \<Rightarrow> code_action list option" where
  "addAllAutoFixable fixes documentFixes fileName =
     (case getNonOverlappingReplacements documentFixes of
        None \<Rightarrow> None
      | Some allReplacements \<Rightarrow>
          Some (fixes @
            [\<lparr>description = ''Fix all auto-fixable tslint failures'',
              changes = [\<lparr>ftc_fileName = fileName,
                          textChanges = map convertReplacementToTextChange allReplacements\<rparr>]\<rparr>]))"

section \<open>Span keys\<close>

text \<open>
  \<^verbatim>\<open>computeKey(start, end)\<close> is the template string \<^verbatim>\<open>[${start},${end}]\<close>. Positions are
  integers, which JavaScript prints in decimal (below \<open>10\<^sup>2\<^sup>1\<close>, far above any offset
  into a file).
\<close>

definition digit :: "nat \<Rightarrow> char" where
  "digit d = ''0123456789'' ! d"

fun show_nat :: "nat \<Rightarrow> string" where
  "show_nat n = (if n < 10 then [digit n] else show_nat (n div 10) @ [digit (n mod 10)])"

declare show_nat.simps [simp del]

definition show_int :: "int \<Rightarrow> string" where
  "show_int i = (if i < 0 then CHR ''-'' # show_nat (nat (- i)) else show_nat (nat i))"

definition computeKey :: "int \<Rightarrow> int \<Rightarrow> string" where
  "computeKey start end' = ''['' @ show_int start @ '','' @ show_int end' @ '']''"

section \<open>Configuration, environment and plugin state\<close>

subsection \<open>The configuration block of the plugin\<close>

text \<open>
  The plugin's \<^verbatim>\<open>config\<close> is the JSON object of the plugin entry in \<^verbatim>\<open>tsconfig.json\<close>: a
  map from option names to JSON values; an option that is not set reads as
  \<^verbatim>\<open>undefined\<close> (\<open>None\<close>).
\<close>

datatype jsvalue = JBool bool | JString string | JNumber int | JNull

text \<open>JavaScript truthiness, as used by \<^verbatim>\<open>if (x)\<close> and \<^verbatim>\<open>x && y\<close>.\<close>

fun truthy :: "jsvalue option \<Rightarrow> bool" where
  "truthy None = False"
| "truthy (Some (JBool b)) = b"
| "truthy (Some (JString s)) = (s \<noteq> [])"
| "truthy (Some (JNumber n)) = (n \<noteq> 0)"
| "truthy (Some JNull) = False"

subsection \<open>tslint configurations\<close>

text \<open>
  The rules of a tslint configuration are a \<^verbatim>\<open>Map\<close> in tslint 5 and a plain object in
  earlier versions.
\<close>

datatype rules_container =
    RulesMap "(string \<times> jsvalue) list"
  | RulesObject "(string \<times> jsvalue) list"

record linter_options =
  exclude :: "string list option"

record configuration =
  rules :: "rules_container option"
  jsRules :: "rules_container option"
  linterOptions :: "linter_options option"

subsection \<open>Exceptions\<close>

text \<open>
  An exception is either a \<^verbatim>\<open>TypeError\<close> of the JavaScript engine (with its message) or
  an object thrown by tslint, of which the plugin reads \<^verbatim>\<open>message\<close> (kept when it is a
  string), \<^verbatim>\<open>toString()\<close> and \<^verbatim>\<open>stack\<close>. The wording of a \<^verbatim>\<open>TypeError\<close> is V8's; its
  stack is given without frames.
\<close>

datatype js_error =
    TypeError string
  | Thrown "string option" string string

fun err_message :: "js_error \<Rightarrow> string option" where
  "err_message (TypeError m) = Some m"
| "err_message (Thrown m t st) = m"

fun err_toString :: "js_error \<Rightarrow> string" where
  "err_toString (TypeError m) = ''TypeError: '' @ m"
| "err_toString (Thrown m t st) = t"

fun err_stack :: "js_error \<Rightarrow> string" where
  "err_stack (TypeError m) = ''TypeError: '' @ m"
| "err_stack (Thrown m t st) = st"

definition undefinedProperty :: "string \<Rightarrow> js_error" where
  "undefinedProperty p = TypeError (''Cannot read property '' @ quoted p @ '' of undefined'')"

text \<open>The result of tslint's \<^verbatim>\<open>Configuration.findConfiguration\<close>.\<close>

record load_result =
  lr_error :: "js_error option"
  lr_results :: "configuration option"
  lr_path :: "string option"

subsection \<open>The environment: host and engine\<close>

text \<open>
  What the plugin calls and does not define: its configuration block (as \<^verbatim>\<open>create\<close>
  leaves it, with a relative \<^verbatim>\<open>configFile\<close> joined to the project root), the wrapped
  language service (\<^verbatim>\<open>oldLS\<close>), the program's source files, tslint's configuration
  lookup and linter, Node's \<^verbatim>\<open>path.normalize\<close> and \<^verbatim>\<open>minimatch\<close>. The linter
  (\<^verbatim>\<open>new tslint.Linter\<close>, \<^verbatim>\<open>lint\<close>, \<^verbatim>\<open>getResult\<close>) yields the warnings it writes
  with \<^verbatim>\<open>console.warn\<close> and then either throws or returns \<^verbatim>\<open>result.failures\<close>.
\<close>

record env =
  config :: "string \<Rightarrow> jsvalue option"
  host_getSemanticDiagnostics :: "string \<Rightarrow> diagnostic list"
  host_getCodeFixesAtPosition :: "string \<Rightarrow> int \<Rightarrow> int \<Rightarrow> int list \<Rightarrow> code_action list"
  getSourceFile :: "string \<Rightarrow> source_file option"
  findConfigurationPath :: "jsvalue option \<Rightarrow> string \<Rightarrow> js_error + string option"
  findConfiguration :: "jsvalue option \<Rightarrow> string \<Rightarrow> js_error + load_result"
  lint :: "string \<Rightarrow> configuration \<Rightarrow> string list \<times> (js_error + problem list)"
  path_normalize :: "string \<Rightarrow> string"
  minimatch_match :: "string \<Rightarrow> string \<Rightarrow> bool"

subsection \<open>The state\<close>

record config_cache =
  cc_filePath :: "string option"
  cc_configuration :: "configuration option"
  cc_isDefaultConfig :: bool
  cc_configFilePath :: "string option"

text \<open>
  The value of the global \<^verbatim>\<open>console.warn\<close>: some function of the host, or the plugin's
  \<^verbatim>\<open>captureWarnings\<close>.
\<close>

datatype warn_sink = HostWarn nat | CaptureWarnings

text \<open>
  The mutable variables of the plugin (\<^verbatim>\<open>codeFixActions\<close>, \<^verbatim>\<open>configCache\<close>,
  \<^verbatim>\<open>configuration\<close>), the global \<^verbatim>\<open>console.warn\<close>, and the messages written to the
  host's logger. \<^verbatim>\<open>codeFixActions\<close> is a \<^verbatim>\<open>Map\<close> from file name to the \<^verbatim>\<open>Map\<close> of
  that file's recorded failures.
\<close>

record state =
  codeFixActions :: "(string \<times> document_fixes) list"
  configCache :: config_cache
  configuration_var :: "configuration option"
  console_warn :: warn_sink
  logger :: "string list"

definition logger_info :: "string \<Rightarrow> state \<Rightarrow> state" where
  "logger_info message s = s\<lparr>logger := logger s @ [message]\<rparr>"

text \<open>The state after \<^verbatim>\<open>init\<close> and \<^verbatim>\<open>create\<close>, with \<open>w\<close> the host's \<^verbatim>\<open>console.warn\<close>.\<close>

definition create :: "warn_sink \<Rightarrow> state" where
  "create w =
     \<lparr>codeFixActions = [],
      configCache = \<lparr>cc_filePath = None, cc_configuration = None,
                     cc_isDefaultConfig = False, cc_configFilePath = None\<rparr>,
      configuration_var = None,
      console_warn = w,
      logger = [''tslint-language-service loaded'']\<rparr>"

section \<open>The configuration resolver\<close>

text \<open>
  Lines 158 to 165 of \<^verbatim>\<open>getConfiguration\<close>: the rule is deleted from \<^verbatim>\<open>rules\<close> and
  \<^verbatim>\<open>jsRules\<close> where they are a \<^verbatim>\<open>Map\<close>. Reading \<^verbatim>\<open>configuration.rules\<close> throws where
  tslint returned no \<^verbatim>\<open>results\<close>.
\<close>

definition deleteNoUnusedVariable :: "rules_container option \<Rightarrow> rules_container option" where
  "deleteNoUnusedVariable container =
     (case container of
        Some (RulesMap m) \<Rightarrow> Some (RulesMap (AList.delete ''no-unused-variable'' m))
      | _ \<Rightarrow> container)"

definition removeNoUnusedVariable :: "env \<Rightarrow> configuration option \<Rightarrow> js_error + configuration option" where
  "removeNoUnusedVariable env cfg =
     (if config env ''disableNoUnusedVariableRule'' = Some (JBool True)
         \<or> config env ''disableNoUnusedVariableRule'' = None
      then (case cfg of
              None \<Rightarrow> Inl (undefinedProperty ''rules'')
            | Some c \<Rightarrow>
                Inr (Some (c\<lparr>rules := deleteNoUnusedVariable (rules c),
                             jsRules := deleteNoUnusedVariable (jsRules c)\<rparr>)))
      else Inr cfg)"

definition getConfiguration ::
  "env \<Rightarrow> state \<Rightarrow> string \<Rightarrow> jsvalue option \<Rightarrow> (js_error + configuration option) \<times> state" where
  "getConfiguration env s filePath configFileName =
     (if cc_configuration (configCache s) \<noteq> None \<and> cc_filePath (configCache s) = Some filePath
      then (Inr (cc_configuration (configCache s)), s)
      else
        (case findConfigurationPath env configFileName filePath of
           Inl err \<Rightarrow> (Inl err, s)
         | Inr foundPath \<Rightarrow>
             (let isDefaultConfig = (foundPath = None) in
              case findConfiguration env configFileName filePath of
                Inl err \<Rightarrow> (Inl err, s)
              | Inr configurationResult \<Rightarrow>
                  (case lr_error configurationResult of
                     Some err \<Rightarrow> (Inl err, s)
                   | None \<Rightarrow>
                       (case removeNoUnusedVariable env (lr_results configurationResult) of
                          Inl err \<Rightarrow> (Inl err, s)
                        | Inr cfg \<Rightarrow>
                            (Inr cfg,
                             s\<lparr>configCache :=
                                 \<lparr>cc_filePath = Some filePath,
                                  cc_configuration = cfg,
                                  cc_isDefaultConfig = isDefaultConfig,
                                  cc_configFilePath = lr_path configurationResult\<rparr>\<rparr>))))))"

definition getConfigurationFailureMessage :: "js_error \<Rightarrow> string" where
  "getConfigurationFailureMessage err =
     ''tslint: Cannot read tslint configuration - ''
       @ quoted (case err_message err of Some m \<Rightarrow> m | None \<Rightarrow> ''unknown error'')"

section \<open>The diagnostic adapter\<close>

definition TSLINT_ERROR_CODE :: int where
  "TSLINT_ERROR_CODE = 100000"

definition makeDiagnostic :: "env \<Rightarrow> problem \<Rightarrow> source_file option \<Rightarrow> diagnostic" where
  "makeDiagnostic env problem file =
     (let message =
            (if getRuleName problem \<noteq> None
             then getFailure problem @ '' ('' @ ruleNameText (getRuleName problem) @ '')''
             else getFailure problem);
          category =
            (if config env ''alwaysShowRuleFailuresAsWarnings'' = Some (JBool True) then Warning
             else if getRuleSeverity problem = Some ''error'' then Error
             else Warning)
      in \<lparr>diag_file = file,
          diag_start = startPosition problem,
          diag_length = endPosition problem - startPosition problem,
          messageText = message,
          diag_category = category,
          diag_source = Some ''tslint'',
          diag_code = TSLINT_ERROR_CODE\<rparr>)"

text \<open>
  \<^verbatim>\<open>filterProblemsForDocument\<close>: the callback of \<^verbatim>\<open>failures.filter\<close>, with the \<^verbatim>\<open>Map\<close>
  \<^verbatim>\<open>normalizedFiles\<close> that remembers the normalised form of each file name seen.
\<close>

fun filterProblemsLoop ::
  "env \<Rightarrow> string \<Rightarrow> (string \<times> string) list \<Rightarrow> problem list \<Rightarrow> problem list" where
  "filterProblemsLoop env normalizedPath normalizedFiles [] = []"
| "filterProblemsLoop env normalizedPath normalizedFiles (each # rest) =
     (let name = getFileName each;
          normalizedFiles' =
            (if map_of normalizedFiles name = None
             then AList.update name (path_normalize env name) normalizedFiles
             else normalizedFiles)
      in if map_of normalizedFiles' name = Some normalizedPath
         then each # filterProblemsLoop env normalizedPath normalizedFiles' rest
         else filterProblemsLoop env normalizedPath normalizedFiles' rest)"

definition filterProblemsForDocument :: "env \<Rightarrow> string \<Rightarrow> problem list \<Rightarrow> problem list" where
  "filterProblemsForDocument env documentPath failures =
     filterProblemsLoop env (path_normalize env documentPath) [] failures"

text \<open>
  \<^verbatim>\<open>recordCodeAction\<close>: a failure is recorded only with a fix whose replacements are not
  empty. \<^verbatim>\<open>Map.set\<close> replaces the value of a key that is present, in place, and appends
  a new key (\<open>AList.update\<close>). Reading \<^verbatim>\<open>file.fileName\<close> throws where the host has no
  source file.
\<close>

definition recordCodeAction :: "problem \<Rightarrow> source_file option \<Rightarrow> state \<Rightarrow> js_error + state" where
  "recordCodeAction problem file s =
     (let fx = (case getFix problem of
                  None \<Rightarrow> None
                | Some f \<Rightarrow> if \<not> replacementsAreEmpty f then Some f else None)
      in if fx = None then Inr s
         else (case file of
                 None \<Rightarrow> Inl (undefinedProperty ''fileName'')
               | Some f \<Rightarrow>
                   (let documentAutoFixes =
                          (case map_of (codeFixActions s) (sf_fileName f) of
                             None \<Rightarrow> []
                           | Some m \<Rightarrow> m)
                    in Inr (s\<lparr>codeFixActions :=
                                AList.update (sf_fileName f)
                                  (AList.update
                                     (computeKey (startPosition problem) (endPosition problem))
                                     problem documentAutoFixes)
                                  (codeFixActions s)\<rparr>))))"

text \<open>
  The \<^verbatim>\<open>forEach\<close> over the failures of the document: each one is turned into a
  diagnostic and recorded. An exception leaves the loop with the state reached.
\<close>

fun recordProblems ::
  "env \<Rightarrow> source_file option \<Rightarrow> problem list \<Rightarrow> diagnostic list \<Rightarrow> state
     \<Rightarrow> (js_error + diagnostic list) \<times> state" where
  "recordProblems env file [] diagnostics s = (Inr diagnostics, s)"
| "recordProblems env file (problem # rest) diagnostics s =
     (let diagnostics' = diagnostics @ [makeDiagnostic env problem file] in
      case recordCodeAction problem file s of
        Inl e \<Rightarrow> (Inl e, s)
      | Inr s' \<Rightarrow> recordProblems env file rest diagnostics' s')"

text \<open>\<^verbatim>\<open>str.endsWith(suffix)\<close>.\<close>

definition endsWith :: "string \<Rightarrow> string \<Rightarrow> bool" where
  "endsWith str suffix =
     (length suffix \<le> length str \<and> drop (length str - length suffix) str = suffix)"

text \<open>
  Lines 305 to 318 of \<^verbatim>\<open>getSemanticDiagnostics\<close>: the configuration is resolved and the
  exclusion patterns are tried. \<open>None\<close> is \<^verbatim>\<open>return prior\<close>: the configuration could not
  be read (which is logged) or the file is excluded.
\<close>

definition isExcluded :: "env \<Rightarrow> configuration \<Rightarrow> string \<Rightarrow> bool" where
  "isExcluded env c fileName =
     (case linterOptions c of
        None \<Rightarrow> False
      | Some opts \<Rightarrow>
          (case exclude opts of
             None \<Rightarrow> False
           | Some patterns \<Rightarrow> list_ex (\<lambda>pattern. minimatch_match env pattern fileName) patterns))"

definition resolveConfiguration :: "env \<Rightarrow> state \<Rightarrow> string \<Rightarrow> configuration option \<times> state" where
  "resolveConfiguration env s fileName =
     (case getConfiguration env s fileName (config env ''configFile'') of
        (Inl err, s') \<Rightarrow> (None, logger_info (getConfigurationFailureMessage err) s')
      | (Inr cfg, s') \<Rightarrow>
          (let s'' = s'\<lparr>configuration_var := cfg\<rparr> in
           case cfg of
             None \<Rightarrow>
               (None, logger_info (getConfigurationFailureMessage (undefinedProperty ''linterOptions'')) s'')
           | Some c \<Rightarrow> if isExcluded env c fileName then (None, s'') else (Some c, s'')))"

text \<open>
  Lines 298 to 318: the log line, the deletion of the file's entry in the registry, the
  test for definition files, and the configuration. \<open>None\<close> is \<^verbatim>\<open>return prior\<close>;
  \<open>Some c\<close> is the configuration the linter is then run with.
\<close>

definition prepare :: "env \<Rightarrow> state \<Rightarrow> string \<Rightarrow> configuration option \<times> state" where
  "prepare env s fileName =
     (let s1 = logger_info ''Computing tslint semantic diagnostics...'' s;
          s2 = s1\<lparr>codeFixActions := AList.delete fileName (codeFixActions s1)\<rparr>
      in if config env ''ignoreDefinitionFiles'' = Some (JBool True) \<and> endsWith fileName ''.d.ts''
         then (None, s2)
         else resolveConfiguration env s2 fileName)"

text \<open>
  A call of \<^verbatim>\<open>console.warn\<close>: \<^verbatim>\<open>captureWarnings\<close> writes the message to the plugin's log;
  what a function of the host does with it is outside the model.
\<close>

definition console_warn_call :: "state \<Rightarrow> string \<Rightarrow> state" where
  "console_warn_call s message =
     (case console_warn s of
        CaptureWarnings \<Rightarrow> logger_info (''[tslint] '' @ message) s
      | HostWarn h \<Rightarrow> s)"

text \<open>
  Lines 319 to 342: \<^verbatim>\<open>console.warn\<close> is saved and redirected, the linter runs, and the
  \<^verbatim>\<open>finally\<close> block restores \<^verbatim>\<open>console.warn\<close>. \<open>None\<close> is the \<^verbatim>\<open>return prior\<close> of the
  \<^verbatim>\<open>catch\<close> block, \<open>Some failures\<close> is \<^verbatim>\<open>result.failures\<close>.
\<close>

definition runLinter :: "env \<Rightarrow> state \<Rightarrow> string \<Rightarrow> configuration \<Rightarrow> problem list option \<times> state" where
  "runLinter env s fileName cfg =
     (let warn = console_warn s;
          s1 = s\<lparr>console_warn := CaptureWarnings\<rparr>;
          s2 = foldl console_warn_call s1 (fst (lint env fileName cfg))
      in case snd (lint env fileName cfg) of
           Inl err \<Rightarrow>
             (let errorMessage = (case err_message err of Some m \<Rightarrow> m | None \<Rightarrow> ''unknown error'');
                  s3 = logger_info (''tslint error '' @ errorMessage) s2
              in (None, s3\<lparr>console_warn := warn\<rparr>))
         | Inr failures \<Rightarrow> (Some failures, s2\<lparr>console_warn := warn\<rparr>))"

text \<open>
  Lines 343 to 360: the failures of other files are dropped; if any is left, each is
  appended to a copy of \<^verbatim>\<open>prior\<close> and recorded. An exception is caught by the outer
  \<^verbatim>\<open>catch\<close>, which logs it and returns \<^verbatim>\<open>prior\<close>.
\<close>

definition augment ::
  "env \<Rightarrow> state \<Rightarrow> string \<Rightarrow> diagnostic list \<Rightarrow> problem list \<Rightarrow> diagnostic list \<times> state" where
  "augment env s fileName prior failures =
     (if length failures > 0
      then (let tslintProblems = filterProblemsForDocument env fileName failures in
            if length tslintProblems > 0
            then (let file = getSourceFile env fileName in
                  case recordProblems env file tslintProblems prior s of
                    (Inr diagnostics, s') \<Rightarrow> (diagnostics, s')
                  | (Inl e, s') \<Rightarrow>
                      (prior,
                       logger_info (''Stack trace: '' @ err_stack e)
                         (logger_info (''tslint-language service error: '' @ err_toString e) s')))
            else (prior, s))
      else (prior, s))"

definition getSemanticDiagnostics :: "env \<Rightarrow> state \<Rightarrow> string \<Rightarrow> diagnostic list \<times> state" where
  "getSemanticDiagnostics env s fileName =
     (let prior = host_getSemanticDiagnostics env fileName in
      if truthy (config env ''supressWhileTypeErrorsPresent'') \<and> length prior > 0
      then (prior, s)
      else (case prepare env s fileName of
              (None, s1) \<Rightarrow> (prior, s1)
            | (Some cfg, s1) \<Rightarrow>
                (case runLinter env s1 fileName cfg of
                   (None, s2) \<Rightarrow> (prior, s2)
                 | (Some failures, s2) \<Rightarrow> augment env s2 fileName prior failures)))"

section \<open>The code fixes operation\<close>

text \<open>
  \<^verbatim>\<open>addOpenConfigurationFix\<close>: the action is switched off in the source
  (\<^verbatim>\<open>openConfigFixEnabled = false\<close>).
\<close>

definition addOpenConfigurationFix :: "code_action list \<Rightarrow> config_cache \<Rightarrow> code_action list" where
  "addOpenConfigurationFix fixes cache =
     (let openConfigFixEnabled = False in
      case cc_configFilePath cache of
        Some p \<Rightarrow>
          (if openConfigFixEnabled
           then fixes @ [\<lparr>description = ''Open tslint.json'',
                           changes = [\<lparr>ftc_fileName = p, textChanges = []\<rparr>]\<rparr>]
           else fixes)
      | None \<Rightarrow> fixes)"

text \<open>
  The body of \<^verbatim>\<open>if (documentFixes)\<close>, lines 370 to 381. \<open>None\<close> is an exception, which
  this operation does not catch.
\<close>

definition fixesForDocument ::
  "env \<Rightarrow> state \<Rightarrow> string \<Rightarrow> int \<Rightarrow> int \<Rightarrow> code_action list \<Rightarrow> document_fixes
     \<Rightarrow> code_action list option" where
  "fixesForDocument env s fileName start end' prior documentFixes =
     (let fixes = prior;
          problem = map_of documentFixes (computeKey start end')
      in Option.bind
           (case problem of
              None \<Rightarrow> Some fixes
            | Some p \<Rightarrow>
                Option.bind (addRuleFailureFix fixes p fileName)
                  (\<lambda>fixes1. addRuleFailureFixAll fixes1 (getRuleName p) documentFixes fileName))
           (\<lambda>fixes2.
              Option.bind (addAllAutoFixable fixes2 documentFixes fileName)
                (\<lambda>fixes3.
                   case problem of
                     None \<Rightarrow> Some fixes3
                   | Some p \<Rightarrow>
                       addDisableRuleFix (addOpenConfigurationFix fixes3 (configCache s))
                         p fileName (getSourceFile env fileName))))"

definition getCodeFixesAtPosition ::
  "env \<Rightarrow> state \<Rightarrow> string \<Rightarrow> int \<Rightarrow> int \<Rightarrow> int list \<Rightarrow> code_action list option \<times> state" where
  "getCodeFixesAtPosition env s fileName start end' errorCodes =
     (let prior = host_getCodeFixesAtPosition env fileName start end' errorCodes in
      if truthy (config env ''supressWhileTypeErrorsPresent'') \<and> length prior > 0
      then (Some prior, s)
      else (let s1 = logger_info
                       (''tslint-language-service getCodeFixes ''
                          @ (case errorCodes of [] \<Rightarrow> ''undefined'' | c # _ \<Rightarrow> show_int c)) s
            in case map_of (codeFixActions s1) fileName of
                 Some documentFixes \<Rightarrow>
                   (fixesForDocument env s1 fileName start end' prior documentFixes, s1)
               | None \<Rightarrow> (Some prior, s1)))"

section \<open>Reachable states\<close>

text \<open>
  The states the plugin can be in: the one after \<^verbatim>\<open>create\<close>, and the one after either
  operation on a state it can be in. What the host and the engine answer may change from
  one call to the next (files are edited between calls), so every step has an
  environment of its own.
\<close>

inductive reachable :: "state \<Rightarrow> bool" where
  reachable_create: "reachable (create w)"
| reachable_diagnostics:
    "reachable s \<Longrightarrow> reachable (snd (getSemanticDiagnostics env s fileName))"
| reachable_codeFixes:
    "reachable s \<Longrightarrow>
       reachable (snd (getCodeFixesAtPosition env s fileName start end' errorCodes))"

section \<open>Notions used in the statements\<close>

text \<open>
  The condition under which \<^verbatim>\<open>recordCodeAction\<close> records a failure: \<^verbatim>\<open>getFix\<close> exists and
  returns a fix that \<^verbatim>\<open>replacementsAreEmpty\<close> does not reject.
\<close>

definition fixable :: "problem \<Rightarrow> bool" where
  "fixable problem =
     (case getFix problem of None \<Rightarrow> False | Some fx \<Rightarrow> \<not> replacementsAreEmpty fx)"

text \<open>The replacement list of a failure; empty where it has no fix.\<close>

definition fixReplacements :: "problem \<Rightarrow> replacement list" where
  "fixReplacements problem = (case getFix problem of None \<Rightarrow> [] | Some fx \<Rightarrow> getReplacements fx)"

text \<open>
  The walk of the overlap resolution as the specification words it (4.4, steps b and c):
  a failure is dropped when the start of its first replacement is less than or equal to
  the end of the last replacement accumulated so far; otherwise all its replacements are
  appended.
\<close>

definition dropped_spec :: "replacement list \<Rightarrow> replacement list \<Rightarrow> bool" where
  "dropped_spec accumulated replacements =
     (case replacements of
        [] \<Rightarrow> False
      | r # _ \<Rightarrow> accumulated \<noteq> [] \<and> rep_start r \<le> rep_end (last accumulated))"

fun overlapWalk_spec :: "problem list \<Rightarrow> replacement list \<Rightarrow> replacement list" where
  "overlapWalk_spec [] accumulated = accumulated"
| "overlapWalk_spec (failure # rest) accumulated =
     (if dropped_spec accumulated (fixReplacements failure)
      then overlapWalk_spec rest accumulated
      else overlapWalk_spec rest (accumulated @ fixReplacements failure))"

text \<open>
  The aggregate action as the specification words it (4.4, action 3): one fix that
  applies the replacements the overlap resolution selects from every failure recorded
  for the file.
\<close>

definition fixAllAutoFixable_spec :: "document_fixes \<Rightarrow> string \<Rightarrow> code_action" where
  "fixAllAutoFixable_spec documentFixes fileName =
     \<lparr>description = ''Fix all auto-fixable tslint failures'',
      changes =
        [\<lparr>ftc_fileName = fileName,
          textChanges =
            map convertReplacementToTextChange
              (overlapWalk_spec (sort_key firstStart (map snd documentFixes)) [])\<rparr>]\<rparr>"

text \<open>
  The invariant of the registry: every recorded failure is fixable and is stored under
  the key of its own span.
\<close>

definition registry_ok :: "state \<Rightarrow> bool" where
  "registry_ok s =
     (\<forall>documentFixes \<in> snd ` set (codeFixActions s).
        \<forall>(k, p) \<in> set documentFixes.
          fixable p \<and> k = computeKey (startPosition p) (endPosition p))"

section \<open>Concrete inputs\<close>

definition ex_replacement :: "int \<Rightarrow> int \<Rightarrow> replacement" where
  "ex_replacement a b = \<lparr>rep_start = a, rep_length = b - a, rep_end = b, rep_text = ''x''\<rparr>"

text \<open>A failure of file \<^verbatim>\<open>a.ts\<close> with the given rule, span and fix.\<close>

definition ex_failure :: "string \<Rightarrow> int \<Rightarrow> int \<Rightarrow> tslint_fix option \<Rightarrow> problem" where
  "ex_failure rule a b fx =
     \<lparr>getFileName = ''a.ts'', getRuleName = Some rule, getFailure = ''msg'',
      startPosition = a, startLine = 0, endPosition = b,
      getRuleSeverity = None, getFix = fx\<rparr>"

text \<open>
  Three failures whose single replacements span \<open>[0,5]\<close>, \<open>[3,8]\<close> and \<open>[10,12]\<close>, recorded
  out of order.
\<close>

definition ex_three :: document_fixes where
  "ex_three =
     [(''[10,12]'', ex_failure ''semicolon'' 10 12 (Some (FixSingle (ex_replacement 10 12)))),
      (''[0,5]'', ex_failure ''quotemark'' 0 5 (Some (FixArray [ex_replacement 0 5]))),
      (''[3,8]'', ex_failure ''semicolon'' 3 8 (Some (FixObject [ex_replacement 3 8])))]"

text \<open>A diagnostic of the host: a type error in \<^verbatim>\<open>a.ts\<close>.\<close>

definition ex_typeError :: diagnostic where
  "ex_typeError =
     \<lparr>diag_file = Some \<lparr>sf_fileName = ''a.ts'', getLineStarts = [0, 20, 40]\<rparr>,
      diag_start = 2, diag_length = 3,
      messageText = ''Type string is not assignable to type number.'',
      diag_category = Error, diag_source = None, diag_code = 2322\<rparr>"

text \<open>A configuration as tslint 5 returns it, and one as tslint 4 does.\<close>

definition ex_configuration5 :: configuration where
  "ex_configuration5 =
     \<lparr>rules = Some (RulesMap [(''semicolon'', JBool True), (''no-unused-variable'', JBool True)]),
      jsRules = Some (RulesMap [(''no-unused-variable'', JBool True), (''quotemark'', JBool True)]),
      linterOptions = None\<rparr>"

definition ex_configuration4 :: configuration where
  "ex_configuration4 =
     \<lparr>rules = Some (RulesObject [(''semicolon'', JBool True), (''no-unused-variable'', JBool True)]),
      jsRules = Some (RulesObject [(''no-unused-variable'', JBool True)]),
      linterOptions = None\<rparr>"

definition ex_thrown :: js_error where
  "ex_thrown = Thrown (Some ''boom'') ''Error: boom'' ''Error: boom at lint''"

text \<open>
  An environment: the plugin's configuration block, the host's diagnostics, the
  configuration tslint finds and what the linter does are given; every file has a
  source file, no code fix comes from the host, tslint cannot read a configuration for
  \<^verbatim>\<open>broken.ts\<close>, paths are in normal form and nothing is excluded.
\<close>

definition ex_env ::
  "(string \<Rightarrow> jsvalue option) \<Rightarrow> diagnostic list \<Rightarrow> configuration
     \<Rightarrow> string list \<times> (js_error + problem list) \<Rightarrow> env" where
  "ex_env block prior tslintConfiguration outcome =
     \<lparr>config = block,
      host_getSemanticDiagnostics = (\<lambda>f. prior),
      host_getCodeFixesAtPosition = (\<lambda>f a b codes. []),
      getSourceFile = (\<lambda>f. Some \<lparr>sf_fileName = f, getLineStarts = [0, 20, 40]\<rparr>),
      findConfigurationPath = (\<lambda>c f. Inr (Some ''tslint.json'')),
      findConfiguration =
        (\<lambda>c f. if f = ''broken.ts'' then Inl ex_thrown
                else Inr \<lparr>lr_error = None, lr_results = Some tslintConfiguration,
                          lr_path = Some ''tslint.json''\<rparr>),
      lint = (\<lambda>f c. outcome),
      path_normalize = (\<lambda>p. p),
      minimatch_match = (\<lambda>pattern f. False)\<rparr>"

text \<open>Two failures of \<^verbatim>\<open>a.ts\<close>: one without a fix at \<open>[0,5]\<close>, one with a fix at \<open>[10,12]\<close>.\<close>

definition ex_unfixable :: problem where
  "ex_unfixable = ex_failure ''no-console'' 0 5 None"

definition ex_fixable :: problem where
  "ex_fixable = ex_failure ''semicolon'' 10 12 (Some (FixSingle (ex_replacement 10 12)))"

text \<open>A configuration block with one option set.\<close>

definition ex_block :: "string \<Rightarrow> jsvalue \<Rightarrow> string \<Rightarrow> jsvalue option" where
  "ex_block name v = Map.empty(name \<mapsto> v)"

text \<open>
  The state after a diagnostics pass over \<^verbatim>\<open>a.ts\<close> in which the linter reports the two
  failures above, and the state after a configuration lookup for \<^verbatim>\<open>a.ts\<close>.
\<close>

definition ex_recorded :: state where
  "ex_recorded =
     snd (getSemanticDiagnostics
            (ex_env Map.empty [] ex_configuration5 ([], Inr [ex_unfixable, ex_fixable]))
            (create (HostWarn 0)) ''a.ts'')"

text \<open>
  The state after a diagnostics pass over \<^verbatim>\<open>a.ts\<close> in which the linter reports the three
  failures of \<open>ex_three\<close>, and the state after a pass in which it reports only the
  failure without a fix.
\<close>

definition ex_recorded_three :: state where
  "ex_recorded_three =
     snd (getSemanticDiagnostics
            (ex_env Map.empty [] ex_configuration5 ([], Inr (map snd ex_three)))
            (create (HostWarn 0)) ''a.ts'')"

definition ex_recorded_none :: state where
  "ex_recorded_none =
     snd (getSemanticDiagnostics
            (ex_env Map.empty [] ex_configuration5 ([], Inr [ex_unfixable]))
            (create (HostWarn 0)) ''a.ts'')"

text \<open>
  A fix of the host's own, and an environment in which the host offers it at every span
  and has one diagnostic, with the suppression option set as the code spells it.
\<close>

definition ex_hostFix :: code_action where
  "ex_hostFix = \<lparr>description = ''Add missing import'', changes = []\<rparr>"

definition ex_env_suppressing :: env where
  "ex_env_suppressing =
     (ex_env (ex_block ''supressWhileTypeErrorsPresent'' (JBool True)) [ex_typeError]
        ex_configuration5 ([], Inr []))
     \<lparr>host_getCodeFixesAtPosition := (\<lambda>f a b codes. [ex_hostFix])\<rparr>"

definition ex_cached :: state where
  "ex_cached =
     snd (getConfiguration (ex_env Map.empty [] ex_configuration5 ([], Inr []))
            (create (HostWarn 0)) ''a.ts'' None)"

section \<open>Lemmas on the fix synthesizer\<close>

lemma replacementsAreEmpty_iff: "replacementsAreEmpty fx \<longleftrightarrow> getReplacements fx = []"
  by (cases fx) auto

lemma fixable_iff: "fixable p \<longleftrightarrow> (\<exists>fx. getFix p = Some fx \<and> getReplacements fx \<noteq> [])"
  by (auto simp: fixable_def replacementsAreEmpty_iff split: option.splits)

lemma fixable_getReplacement: "fixable p \<Longrightarrow> getReplacement p 0 = Some (hd (fixReplacements p))"
  by (auto simp: fixable_iff fixReplacements_def getReplacement_def hd_conv_nth)

lemma sortFailures_fixable:
  assumes "\<forall>f \<in> set fs. fixable f"
  shows "sortFailures fs = Some (sort_key firstStart fs)"
proof (cases "length fs < 2")
  case True
  then have "fs = [] \<or> (\<exists>x. fs = [x])"
    by (cases fs) (auto simp: length_Suc_conv)
  then show ?thesis by (auto simp: sortFailures_def)
next
  case False
  with assms show ?thesis
    by (auto simp: sortFailures_def list_all_iff fixable_getReplacement)
qed

lemma nonOverlappingLoop_spec:
  assumes "\<forall>f \<in> set fs. fixable f" and "(i = 0) = (acc = [])"
  shows "nonOverlappingLoop i fs acc = Some (overlapWalk_spec fs acc)"
  using assms
proof (induction fs arbitrary: i acc)
  case Nil
  then show ?case by simp
next
  case (Cons f fs)
  from Cons.prems obtain fx where fx: "getFix f = Some fx" "getReplacements fx \<noteq> []"
    by (auto simp: fixable_iff)
  then obtain b bs where reps: "getReplacements fx = b # bs"
    by (cases "getReplacements fx") auto
  have fr: "fixReplacements f = b # bs"
    by (simp add: fixReplacements_def fx reps)
  have rest: "\<forall>f \<in> set fs. fixable f" using Cons.prems by simp
  show ?case
  proof (cases "i = 0")
    case True
    with Cons.prems have "acc = []" by simp
    with True show ?thesis
      using Cons.IH [OF rest, of "Suc i" "acc @ b # bs"]
      by (simp add: fx reps fr dropped_spec_def)
  next
    case False
    with Cons.prems have ne: "acc \<noteq> []" by simp
    show ?thesis
      using False ne Cons.IH [OF rest, of "Suc i" "acc @ b # bs"] Cons.IH [OF rest, of "Suc i" acc]
      by (simp add: fx reps fr dropped_spec_def overlaps_def)
  qed
qed

section \<open>Span keys determine the span\<close>

lemma digit_mem: "d < 10 \<Longrightarrow> digit d \<in> set ''0123456789''"
  unfolding digit_def by (rule nth_mem) simp

lemma digit_inj: "a < 10 \<Longrightarrow> b < 10 \<Longrightarrow> digit a = digit b \<Longrightarrow> a = b"
proof -
  assume a: "a < 10" and b: "b < 10" and e: "digit a = digit b"
  have d: "distinct ''0123456789''" by simp
  have "a < length ''0123456789''" "b < length ''0123456789''" using a b by simp_all
  with d e show "a = b" unfolding digit_def by (simp only: nth_eq_iff_index_eq)
qed

lemma show_nat_digits: "set (show_nat n) \<subseteq> set ''0123456789''"
proof (induction n rule: show_nat.induct)
  case (1 n)
  show ?case
  proof (cases "n < 10")
    case True
    then show ?thesis using digit_mem [of n] by (subst show_nat.simps) simp
  next
    case False
    have "n mod 10 < 10" by simp
    then have "digit (n mod 10) \<in> set ''0123456789''" by (rule digit_mem)
    with False "1.IH" show ?thesis by (subst show_nat.simps) simp
  qed
qed

lemma show_nat_nonempty: "show_nat n \<noteq> []"
  by (subst show_nat.simps) simp

lemma show_nat_inj: "show_nat n = show_nat m \<Longrightarrow> n = m"
proof (induction n arbitrary: m rule: show_nat.induct)
  case (1 n)
  show ?case
  proof (cases "n < 10")
    case n: True
    show ?thesis
    proof (cases "m < 10")
      case True
      with n "1.prems" show ?thesis
        by (simp add: show_nat.simps [of n] show_nat.simps [of m] digit_inj)
    next
      case False
      with n "1.prems" show_nat_nonempty [of "m div 10"] show ?thesis
        by (simp add: show_nat.simps [of n] show_nat.simps [of m])
    qed
  next
    case n: False
    show ?thesis
    proof (cases "m < 10")
      case True
      with n "1.prems" show_nat_nonempty [of "n div 10"] show ?thesis
        by (simp add: show_nat.simps [of n] show_nat.simps [of m])
    next
      case False
      with n "1.prems" have e: "show_nat (n div 10) = show_nat (m div 10)"
        and d: "digit (n mod 10) = digit (m mod 10)"
        by (simp_all add: show_nat.simps [of n] show_nat.simps [of m])
      from "1.IH" [OF n e] have q: "n div 10 = m div 10" .
      from d have r: "n mod 10 = m mod 10" by (intro digit_inj) simp_all
      from q r show ?thesis by (metis div_mult_mod_eq)
    qed
  qed
qed

lemma show_int_chars: "CHR '','' \<notin> set (show_int i)"
  using show_nat_digits [of "nat i"] show_nat_digits [of "nat (- i)"]
  by (auto simp: show_int_def)

lemma show_int_inj: "show_int i = show_int j \<Longrightarrow> i = j"
proof -
  assume e: "show_int i = show_int j"
  have nd: "\<And>n. hd (show_nat n) \<noteq> CHR ''-''"
  proof -
    fix n
    have "hd (show_nat n) \<in> set (show_nat n)" using show_nat_nonempty by simp
    with show_nat_digits [of n] show "hd (show_nat n) \<noteq> CHR ''-''" by auto
  qed
  show "i = j"
  proof (cases "i < 0")
    case i: True
    show ?thesis
    proof (cases "j < 0")
      case True
      with i e have "show_nat (nat (- i)) = show_nat (nat (- j))" by (simp add: show_int_def)
      then have "nat (- i) = nat (- j)" by (rule show_nat_inj)
      with i True show ?thesis by simp
    next
      case False
      with i e have "CHR ''-'' # show_nat (nat (- i)) = show_nat (nat j)" by (simp add: show_int_def)
      then have "hd (show_nat (nat j)) = CHR ''-''" by (metis list.sel(1))
      with nd show ?thesis by blast
    qed
  next
    case i: False
    show ?thesis
    proof (cases "j < 0")
      case True
      with i e have "show_nat (nat i) = CHR ''-'' # show_nat (nat (- j))" by (simp add: show_int_def)
      then have "hd (show_nat (nat i)) = CHR ''-''" by (metis list.sel(1))
      with nd show ?thesis by blast
    next
      case False
      with i e have "show_nat (nat i) = show_nat (nat j)" by (simp add: show_int_def)
      then have "nat i = nat j" by (rule show_nat_inj)
      with i False show ?thesis by simp
    qed
  qed
qed

lemma split_at_separator:
  "c \<notin> set xs \<Longrightarrow> c \<notin> set xs' \<Longrightarrow> xs @ c # ys = xs' @ c # ys' \<Longrightarrow> xs = xs' \<and> ys = ys'"
proof (induction xs arbitrary: xs')
  case Nil
  then show ?case by (cases xs') auto
next
  case (Cons x xs)
  then show ?case by (cases xs') auto
qed

lemma computeKey_inj:
  "computeKey a b = computeKey a' b' \<Longrightarrow> a = a' \<and> b = b'"
proof -
  assume "computeKey a b = computeKey a' b'"
  then have e: "show_int a @ CHR '','' # (show_int b @ '']'') = show_int a' @ CHR '','' # (show_int b' @ '']'')"
    by (simp add: computeKey_def)
  from split_at_separator [OF show_int_chars show_int_chars e]
  have "show_int a = show_int a'" and "show_int b @ '']'' = show_int b' @ '']''" by simp_all
  then show ?thesis by (auto dest: show_int_inj)
qed

section \<open>What each stage of the diagnostics operation leaves unchanged\<close>

lemma set_update_subset: "set (AList.update k v al) \<subseteq> insert (k, v) (set al)"
  by (induction al) auto

lemma set_delete_subset: "set (AList.delete k al) \<subseteq> set al"
  by (auto simp: AList.delete_eq)

lemma codeFixActions_logger_info [simp]: "codeFixActions (logger_info m s) = codeFixActions s"
  by (simp add: logger_info_def)

lemma console_warn_logger_info [simp]: "console_warn (logger_info m s) = console_warn s"
  by (simp add: logger_info_def)

lemma configCache_logger_info [simp]: "configCache (logger_info m s) = configCache s"
  by (simp add: logger_info_def)

lemma logger_logger_info [simp]: "logger (logger_info m s) = logger s @ [m]"
  by (simp add: logger_info_def)

lemma getConfiguration_frame:
  "codeFixActions (snd (getConfiguration env s f c)) = codeFixActions s"
  "console_warn (snd (getConfiguration env s f c)) = console_warn s"
  "logger (snd (getConfiguration env s f c)) = logger s"
  by (simp_all add: getConfiguration_def Let_def split: sum.splits option.splits)

lemma resolveConfiguration_frame:
  "codeFixActions (snd (resolveConfiguration env s f)) = codeFixActions s"
  "console_warn (snd (resolveConfiguration env s f)) = console_warn s"
proof -
  obtain r s' where g: "getConfiguration env s f (config env ''configFile'') = (r, s')"
    by (cases "getConfiguration env s f (config env ''configFile'')")
  from getConfiguration_frame(1,2) [of env s f "config env ''configFile''"] g
  have "codeFixActions s' = codeFixActions s" "console_warn s' = console_warn s" by simp_all
  then show "codeFixActions (snd (resolveConfiguration env s f)) = codeFixActions s"
    "console_warn (snd (resolveConfiguration env s f)) = console_warn s"
    by (simp_all add: resolveConfiguration_def g Let_def split: sum.splits option.splits)
qed

lemma prepare_frame:
  "codeFixActions (snd (prepare env s f)) = AList.delete f (codeFixActions s)"
  "console_warn (snd (prepare env s f)) = console_warn s"
  by (simp_all add: prepare_def Let_def resolveConfiguration_frame)

lemma foldl_console_warn_call_frame:
  "codeFixActions (foldl console_warn_call s ws) = codeFixActions s"
  "console_warn (foldl console_warn_call s ws) = console_warn s"
  by (induction ws arbitrary: s) (simp_all add: console_warn_call_def split: warn_sink.splits)

lemma runLinter_frame:
  "codeFixActions (snd (runLinter env s f c)) = codeFixActions s"
  "console_warn (snd (runLinter env s f c)) = console_warn s"
  by (simp_all add: runLinter_def Let_def foldl_console_warn_call_frame split: sum.splits)

lemma recordCodeAction_console_warn:
  "recordCodeAction p file s = Inr s' \<Longrightarrow> console_warn s' = console_warn s"
  by (auto simp: recordCodeAction_def Let_def split: option.splits if_splits)

lemma recordProblems_console_warn:
  "console_warn (snd (recordProblems env file ps ds s)) = console_warn s"
proof (induction ps arbitrary: ds s)
  case Nil
  then show ?case by simp
next
  case (Cons p ps)
  show ?case
  proof (cases "recordCodeAction p file s")
    case (Inl e)
    then show ?thesis by simp
  next
    case (Inr s')
    with Cons.IH [of "ds @ [makeDiagnostic env p file]" s'] recordCodeAction_console_warn [OF Inr]
    show ?thesis by simp
  qed
qed

lemma augment_console_warn:
  "console_warn (snd (augment env s f prior fs)) = console_warn s"
proof -
  let ?r = "recordProblems env (getSourceFile env f) (filterProblemsForDocument env f fs) prior s"
  have "console_warn (snd ?r) = console_warn s" by (rule recordProblems_console_warn)
  then show ?thesis
    by (cases ?r) (auto simp: augment_def Let_def split: sum.splits)
qed

lemma getSemanticDiagnostics_console_warn:
  "console_warn (snd (getSemanticDiagnostics env s f)) = console_warn s"
proof -
  obtain c s1 where p: "prepare env s f = (c, s1)" by (cases "prepare env s f")
  with prepare_frame(2) [of env s f] have s1: "console_warn s1 = console_warn s" by simp
  show ?thesis
  proof (cases c)
    case None
    with p s1 show ?thesis by (simp add: getSemanticDiagnostics_def Let_def)
  next
    case (Some cfg)
    obtain r s2 where l: "runLinter env s1 f cfg = (r, s2)" by (cases "runLinter env s1 f cfg")
    with runLinter_frame(2) [of env s1 f cfg] s1 have s2: "console_warn s2 = console_warn s" by simp
    show ?thesis
    proof (cases r)
      case None
      with p Some l s2 show ?thesis by (simp add: getSemanticDiagnostics_def Let_def)
    next
      case (Some fs)
      with p \<open>c = Some cfg\<close> l s2 augment_console_warn [of env s2 f "host_getSemanticDiagnostics env f" fs]
      show ?thesis by (simp add: getSemanticDiagnostics_def Let_def)
    qed
  qed
qed

lemma filterProblemsLoop_filter:
  assumes "\<forall>k v. map_of cache k = Some v \<longrightarrow> v = path_normalize env k"
  shows "filterProblemsLoop env np cache fs = filter (\<lambda>p. path_normalize env (getFileName p) = np) fs"
  using assms
proof (induction fs arbitrary: cache)
  case Nil
  then show ?case by simp
next
  case (Cons p ps)
  let ?name = "getFileName p"
  let ?cache' = "if map_of cache ?name = None
                 then AList.update ?name (path_normalize env ?name) cache else cache"
  have inv: "\<forall>k v. map_of ?cache' k = Some v \<longrightarrow> v = path_normalize env k"
    using Cons.prems by (auto simp: update_conv')
  have here: "map_of ?cache' ?name = Some (path_normalize env ?name)"
    using Cons.prems by (auto simp: update_conv')
  from Cons.IH [OF inv] here show ?case
    by (simp add: Let_def)
qed

lemma filterProblemsForDocument_filter:
  "filterProblemsForDocument env documentPath failures =
     filter (\<lambda>p. path_normalize env (getFileName p) = path_normalize env documentPath) failures"
  unfolding filterProblemsForDocument_def by (rule filterProblemsLoop_filter) simp

lemma getSemanticDiagnostics_cases:
  obtains
    (gate) "truthy (config env ''supressWhileTypeErrorsPresent'')"
      "host_getSemanticDiagnostics env f \<noteq> []"
      "getSemanticDiagnostics env s f = (host_getSemanticDiagnostics env f, s)"
  | (stopped) s1 where "prepare env s f = (None, s1)"
      "getSemanticDiagnostics env s f = (host_getSemanticDiagnostics env f, s1)"
  | (threw) cfg s1 s2 where "prepare env s f = (Some cfg, s1)"
      "runLinter env s1 f cfg = (None, s2)"
      "getSemanticDiagnostics env s f = (host_getSemanticDiagnostics env f, s2)"
  | (linted) cfg s1 failures s2 where "prepare env s f = (Some cfg, s1)"
      "runLinter env s1 f cfg = (Some failures, s2)"
      "getSemanticDiagnostics env s f
         = augment env s2 f (host_getSemanticDiagnostics env f) failures"
proof (cases "truthy (config env ''supressWhileTypeErrorsPresent'')
              \<and> host_getSemanticDiagnostics env f \<noteq> []")
  case True
  then show ?thesis using gate by (simp add: getSemanticDiagnostics_def)
next
  case ng: False
  obtain c s1 where p: "prepare env s f = (c, s1)" by (cases "prepare env s f")
  show ?thesis
  proof (cases c)
    case None
    have "getSemanticDiagnostics env s f = (host_getSemanticDiagnostics env f, s1)"
      using ng by (auto simp: getSemanticDiagnostics_def p None)
    with p None show ?thesis using stopped by simp
  next
    case (Some cfg)
    obtain r s2 where l: "runLinter env s1 f cfg = (r, s2)" by (cases "runLinter env s1 f cfg")
    show ?thesis
    proof (cases r)
      case None
      have "getSemanticDiagnostics env s f = (host_getSemanticDiagnostics env f, s2)"
        using ng by (auto simp: getSemanticDiagnostics_def p Some l None)
      with p Some l None show ?thesis using threw by simp
    next
      case inner: (Some failures)
      have "getSemanticDiagnostics env s f
         = augment env s2 f (host_getSemanticDiagnostics env f) failures"
        using ng by (auto simp: getSemanticDiagnostics_def p Some l inner)
      with p Some l inner show ?thesis using linted by simp
    qed
  qed
qed

section \<open>The invariant of the registry\<close>

lemma registry_okI:
  assumes "\<And>f m k p. (f, m) \<in> set (codeFixActions s) \<Longrightarrow> (k, p) \<in> set m \<Longrightarrow>
             fixable p \<and> k = computeKey (startPosition p) (endPosition p)"
  shows "registry_ok s"
  using assms unfolding registry_ok_def by fastforce

lemma registry_okD:
  assumes "registry_ok s" and "(f, m) \<in> set (codeFixActions s)" and "(k, p) \<in> set m"
  shows "fixable p" and "k = computeKey (startPosition p) (endPosition p)"
  using assms unfolding registry_ok_def by fastforce+

lemma registry_ok_subset:
  assumes "registry_ok s" and "set (codeFixActions s') \<subseteq> set (codeFixActions s)"
  shows "registry_ok s'"
  using assms unfolding registry_ok_def by fastforce

lemma recordCodeAction_registry_ok:
  assumes ok: "registry_ok s" and rec: "recordCodeAction p file s = Inr s'"
  shows "registry_ok s'"
proof (cases "fixable p")
  case False
  then have "s' = s" using rec
    by (auto simp: recordCodeAction_def fixable_def Let_def split: option.splits if_splits)
  with ok show ?thesis by simp
next
  case True
  then obtain fx where fx: "getFix p = Some fx" "\<not> replacementsAreEmpty fx"
    by (auto simp: fixable_def split: option.splits)
  with rec obtain f where fl: "file = Some f"
    by (cases "file") (auto simp: recordCodeAction_def Let_def)
  let ?key = "computeKey (startPosition p) (endPosition p)"
  let ?old = "case map_of (codeFixActions s) (sf_fileName f) of None \<Rightarrow> [] | Some m \<Rightarrow> m"
  let ?new = "AList.update ?key p ?old"
  have s': "codeFixActions s' = AList.update (sf_fileName f) ?new (codeFixActions s)"
    using rec fx fl by (auto simp: recordCodeAction_def Let_def)
  have old: "\<And>k q. (k, q) \<in> set ?old \<Longrightarrow>
      fixable q \<and> k = computeKey (startPosition q) (endPosition q)"
  proof -
    fix k q assume in_old: "(k, q) \<in> set ?old"
    then obtain m where m: "map_of (codeFixActions s) (sf_fileName f) = Some m" and "(k, q) \<in> set m"
      by (cases "map_of (codeFixActions s) (sf_fileName f)") auto
    from map_of_SomeD [OF m] this(2) ok
    show "fixable q \<and> k = computeKey (startPosition q) (endPosition q)"
      by (auto dest: registry_okD)
  qed
  show ?thesis
  proof (rule registry_okI)
    fix g m k q
    assume gm: "(g, m) \<in> set (codeFixActions s')" and kq: "(k, q) \<in> set m"
    from gm s' set_update_subset [of "sf_fileName f" ?new "codeFixActions s"]
    have "m = ?new \<or> (g, m) \<in> set (codeFixActions s)" by auto
    then show "fixable q \<and> k = computeKey (startPosition q) (endPosition q)"
    proof
      assume "m = ?new"
      with kq set_update_subset [of ?key p ?old]
      have "(k, q) = (?key, p) \<or> (k, q) \<in> set ?old" by auto
      with old True show ?thesis by auto
    next
      assume "(g, m) \<in> set (codeFixActions s)"
      with ok kq show ?thesis by (auto dest: registry_okD)
    qed
  qed
qed

lemma recordProblems_registry_ok:
  "registry_ok s \<Longrightarrow> registry_ok (snd (recordProblems env file ps ds s))"
proof (induction ps arbitrary: ds s)
  case Nil
  then show ?case by simp
next
  case (Cons p ps)
  show ?case
  proof (cases "recordCodeAction p file s")
    case (Inl e)
    with Cons.prems show ?thesis by simp
  next
    case (Inr s')
    from recordCodeAction_registry_ok [OF Cons.prems Inr] have "registry_ok s'" .
    from Cons.IH [OF this, of "ds @ [makeDiagnostic env p file]"] Inr show ?thesis by simp
  qed
qed

lemma augment_registry_ok:
  assumes "registry_ok s"
  shows "registry_ok (snd (augment env s f prior fs))"
proof -
  let ?r = "recordProblems env (getSourceFile env f) (filterProblemsForDocument env f fs) prior s"
  have "registry_ok (snd ?r)" using assms by (rule recordProblems_registry_ok)
  moreover have "\<And>m t. registry_ok t \<Longrightarrow> registry_ok (logger_info m t)"
    by (simp add: registry_ok_def)
  ultimately show ?thesis using assms
    by (cases ?r) (auto simp: augment_def Let_def split: sum.splits)
qed

lemma getSemanticDiagnostics_registry_ok:
  assumes "registry_ok s"
  shows "registry_ok (snd (getSemanticDiagnostics env s f))"
proof -
  have prep: "registry_ok s1" if "prepare env s f = (c, s1)" for c s1
  proof -
    from that prepare_frame(1) [of env s f]
    have "codeFixActions s1 = AList.delete f (codeFixActions s)" by simp
    with set_delete_subset [of f "codeFixActions s"]
    have "set (codeFixActions s1) \<subseteq> set (codeFixActions s)" by simp
    with assms show ?thesis by (rule registry_ok_subset)
  qed
  have run: "registry_ok s2" if "prepare env s f = (Some cfg, s1)" "runLinter env s1 f cfg = (r, s2)"
    for cfg s1 r s2
  proof -
    from that(2) runLinter_frame(1) [of env s1 f cfg]
    have "codeFixActions s2 = codeFixActions s1" by simp
    with prep [OF that(1)] show ?thesis by (simp add: registry_ok_def)
  qed
  show ?thesis
  proof (cases env f s rule: getSemanticDiagnostics_cases)
    case gate
    with assms show ?thesis by simp
  next
    case (stopped s1)
    from prep [OF stopped(1)] stopped(2) show ?thesis by simp
  next
    case (threw cfg s1 s2)
    from run [OF threw(1,2)] threw(3) show ?thesis by simp
  next
    case (linted cfg s1 failures s2)
    from run [OF linted(1,2)] have "registry_ok s2" .
    then have "registry_ok (snd (augment env s2 f (host_getSemanticDiagnostics env f) failures))"
      by (rule augment_registry_ok)
    with linted(3) show ?thesis by simp
  qed
qed

lemma getCodeFixesAtPosition_frame:
  "codeFixActions (snd (getCodeFixesAtPosition env s f a b codes)) = codeFixActions s"
  by (simp add: getCodeFixesAtPosition_def Let_def split: option.splits)

lemma reachable_registry_ok: "reachable s \<Longrightarrow> registry_ok s"
proof (induction rule: reachable.induct)
  case (reachable_create w)
  show ?case by (simp add: registry_ok_def create_def)
next
  case (reachable_diagnostics s env fileName)
  then show ?case by (simp add: getSemanticDiagnostics_registry_ok)
next
  case (reachable_codeFixes s env fileName start end' errorCodes)
  then show ?case by (simp add: registry_ok_def getCodeFixesAtPosition_frame)
qed

lemma problemToFileTextChange_fixable:
  "fixable p \<Longrightarrow> problemToFileTextChange p f =
     Some \<lparr>ftc_fileName = f, textChanges = map convertReplacementToTextChange (fixReplacements p)\<rparr>"
  by (auto simp: fixable_def problemToFileTextChange_def fixReplacements_def split: option.splits)

lemma ruleFailureChanges_filter:
  assumes "\<forall>p \<in> set ps. fixable p"
  shows "ruleFailureChanges r f ps acc =
     Some (acc @ map (\<lambda>p. \<lparr>ftc_fileName = f,
                            textChanges = map convertReplacementToTextChange (fixReplacements p)\<rparr>)
                  (filter (\<lambda>p. getRuleName p = r) ps))"
  using assms
  by (induction ps arbitrary: acc) (simp_all add: problemToFileTextChange_fixable)

lemma delete_filter: "AList.delete k al = filter (\<lambda>e. fst e \<noteq> k) al"
  by (induction al) auto

section \<open>Evaluation of the model on concrete inputs\<close>

lemmas example_defs =
  ex_env_def ex_block_def ex_configuration5_def ex_configuration4_def ex_thrown_def
  ex_typeError_def ex_unfixable_def ex_fixable_def ex_failure_def ex_replacement_def
  ex_three_def create_def

lemmas resolver_defs =
  getConfiguration_def removeNoUnusedVariable_def deleteNoUnusedVariable_def delete_filter
  getConfigurationFailureMessage_def undefinedProperty_def quoted_def

lemmas adapter_defs =
  getSemanticDiagnostics_def prepare_def resolveConfiguration_def isExcluded_def endsWith_def
  runLinter_def console_warn_call_def augment_def filterProblemsForDocument_filter
  recordCodeAction_def makeDiagnostic_def TSLINT_ERROR_CODE_def ruleNameText_def logger_info_def
  computeKey_def show_int_def show_nat.simps digit_def

lemma ex_recorded_value:
  "codeFixActions ex_recorded = [(''a.ts'', [(''[10,12]'', ex_fixable)])]"
  "console_warn ex_recorded = HostWarn 0"
  by (simp_all add: ex_recorded_def example_defs resolver_defs adapter_defs Let_def)

lemma ex_cached_value:
  "cc_filePath (configCache ex_cached) = Some ''a.ts''"
  "cc_configuration (configCache ex_cached) =
     Some \<lparr>rules = Some (RulesMap [(''semicolon'', JBool True)]),
           jsRules = Some (RulesMap [(''quotemark'', JBool True)]),
           linterOptions = None\<rparr>"
  by (simp_all add: ex_cached_def example_defs resolver_defs Let_def)

lemma logger_foldl_captured:
  "console_warn s = CaptureWarnings \<Longrightarrow>
     logger (foldl console_warn_call s ws) = logger s @ map (\<lambda>w. ''[tslint] '' @ w) ws"
  by (induction ws arbitrary: s) (simp_all add: console_warn_call_def)

section \<open>Overlap resolution\<close>

text \<open>
  Claim C1. The overlap resolution behind the fix-all-auto-fixable action sorts the
  recorded failures of the file ascending by the start of their first replacement and
  then walks them in order: a failure whose first replacement starts at or before the
  end of the last replacement accumulated so far is dropped with all its replacements,
  any other failure has all its replacements appended. On a registry whose failures are
  all fixable (the invariant of the registry), \<open>getNonOverlappingReplacements\<close> does not
  throw, its sort returns a sorted permutation of the recorded failures, and its loop
  computes the walk of the specification on it. In particular, for failures with
  replacement spans \<open>[0,5]\<close>, \<open>[3,8]\<close>, \<open>[10,12]\<close> the result is the replacements of
  the first and the third.
\<close>

theorem overlap_resolution:
  "((\<forall>p \<in> snd ` set documentFixes. fixable p) \<longrightarrow>
      (\<exists>sortedFailures.
         sortFailures (map snd documentFixes) = Some sortedFailures
         \<and> mset sortedFailures = mset (map snd documentFixes)
         \<and> sorted (map firstStart sortedFailures)
         \<and> getNonOverlappingReplacements documentFixes
             = Some (overlapWalk_spec sortedFailures [])))
   \<and> getNonOverlappingReplacements ex_three = Some [ex_replacement 0 5, ex_replacement 10 12]"
proof (intro conjI impI)
  assume fx: "\<forall>p \<in> snd ` set documentFixes. fixable p"
  let ?fs = "map snd documentFixes"
  let ?srt = "sort_key firstStart ?fs"
  from fx have all: "\<forall>f \<in> set ?fs. fixable f" by simp
  then have srt: "sortFailures ?fs = Some ?srt" by (rule sortFailures_fixable)
  from all have "\<forall>f \<in> set ?srt. fixable f" by simp
  then have "nonOverlappingLoop 0 ?srt [] = Some (overlapWalk_spec ?srt [])"
    by (rule nonOverlappingLoop_spec) simp
  with srt have "getNonOverlappingReplacements documentFixes = Some (overlapWalk_spec ?srt [])"
    by (simp add: getNonOverlappingReplacements_def)
  with srt show "\<exists>sortedFailures.
      sortFailures (map snd documentFixes) = Some sortedFailures
      \<and> mset sortedFailures = mset (map snd documentFixes)
      \<and> sorted (map firstStart sortedFailures)
      \<and> getNonOverlappingReplacements documentFixes
          = Some (overlapWalk_spec sortedFailures [])"
    by simp
next
  show "getNonOverlappingReplacements ex_three = Some [ex_replacement 0 5, ex_replacement 10 12]"
    by (simp add: getNonOverlappingReplacements_def sortFailures_def ex_three_def ex_failure_def
        ex_replacement_def getReplacement_def firstStart_def overlaps_def)
qed

text \<open>The theorem at the three failures, which are recorded out of order.\<close>

theorem overlap_resolution_witness:
  "list_all fixable (map snd ex_three)
   \<and> getNonOverlappingReplacements ex_three
       = Some (overlapWalk_spec (sort_key firstStart (map snd ex_three)) [])
   \<and> overlapWalk_spec (sort_key firstStart (map snd ex_three)) []
       = [ex_replacement 0 5, ex_replacement 10 12]"
proof -
  have h: "\<forall>p \<in> snd ` set ex_three. fixable p"
    by (simp add: ex_three_def ex_failure_def fixable_def)
  have srt: "sortFailures (map snd ex_three) = Some (sort_key firstStart (map snd ex_three))"
    by (simp add: sortFailures_def ex_three_def ex_failure_def getReplacement_def)
  from overlap_resolution [of ex_three] h srt
  have "getNonOverlappingReplacements ex_three
       = Some (overlapWalk_spec (sort_key firstStart (map snd ex_three)) [])"
    by auto
  moreover from overlap_resolution [of ex_three]
  have "getNonOverlappingReplacements ex_three = Some [ex_replacement 0 5, ex_replacement 10 12]"
    by simp
  ultimately show ?thesis using h by (simp add: list_all_iff)
qed

section \<open>The warning sink\<close>

text \<open>
  Claim C5. \<^verbatim>\<open>console.warn\<close> is saved and redirected for the lint invocation and restored
  on every exit path of the diagnostics operation: after any call of
  \<open>getSemanticDiagnostics\<close>, and after the lint stage whether the linter returns or
  throws, \<open>console_warn\<close> is what it was before. While the linter runs the sink is the
  plugin's: every warning the linter writes ends up in the plugin's log, whatever the
  sink was before.
\<close>

theorem console_warn_restored:
  "console_warn (snd (getSemanticDiagnostics env s fileName)) = console_warn s
   \<and> console_warn (snd (runLinter env s fileName cfg)) = console_warn s
   \<and> logger (snd (runLinter env s fileName cfg))
       = logger s @ map (\<lambda>w. ''[tslint] '' @ w) (fst (lint env fileName cfg))
           @ (case snd (lint env fileName cfg) of
                Inl err \<Rightarrow>
                  [''tslint error ''
                     @ (case err_message err of Some m \<Rightarrow> m | None \<Rightarrow> ''unknown error'')]
              | Inr failures \<Rightarrow> [])"
proof (intro conjI)
  show "console_warn (snd (getSemanticDiagnostics env s fileName)) = console_warn s"
    by (rule getSemanticDiagnostics_console_warn)
  show "console_warn (snd (runLinter env s fileName cfg)) = console_warn s"
    by (rule runLinter_frame)
  have "logger (foldl console_warn_call (s\<lparr>console_warn := CaptureWarnings\<rparr>) (fst (lint env fileName cfg)))
      = logger s @ map (\<lambda>w. ''[tslint] '' @ w) (fst (lint env fileName cfg))"
    by (simp add: logger_foldl_captured)
  then show "logger (snd (runLinter env s fileName cfg))
       = logger s @ map (\<lambda>w. ''[tslint] '' @ w) (fst (lint env fileName cfg))
           @ (case snd (lint env fileName cfg) of
                Inl err \<Rightarrow>
                  [''tslint error ''
                     @ (case err_message err of Some m \<Rightarrow> m | None \<Rightarrow> ''unknown error'')]
              | Inr failures \<Rightarrow> [])"
    by (simp add: runLinter_def Let_def split: sum.splits)
qed

section \<open>The diagnostics operation\<close>

text \<open>
  Claim C2, amended. The option the code reads is \<^verbatim>\<open>supressWhileTypeErrorsPresent\<close> (one
  \<^verbatim>\<open>p\<close>, as in the \<^verbatim>\<open>Settings\<close> interface of the source): for every file for which the
  host's diagnostics are not empty and that option is truthy, the diagnostics operation
  returns the host's diagnostics and leaves the whole state as it was: nothing is
  logged, the registry is neither cleared nor written, the linter is not run.
\<close>

theorem suppress_gate:
  assumes "truthy (config env ''supressWhileTypeErrorsPresent'')"
    and "host_getSemanticDiagnostics env fileName \<noteq> []"
  shows "getSemanticDiagnostics env s fileName = (host_getSemanticDiagnostics env fileName, s)"
  using assms by (simp add: getSemanticDiagnostics_def)

text \<open>The theorem on a state with a recorded failure, under the option as the code spells it.\<close>

theorem suppress_gate_witness:
  "truthy (config (ex_env (ex_block ''supressWhileTypeErrorsPresent'' (JBool True)) [ex_typeError]
             ex_configuration5 ([], Inr [ex_unfixable, ex_fixable])) ''supressWhileTypeErrorsPresent'')
   \<and> getSemanticDiagnostics
        (ex_env (ex_block ''supressWhileTypeErrorsPresent'' (JBool True)) [ex_typeError]
           ex_configuration5 ([], Inr [ex_unfixable, ex_fixable]))
        ex_recorded ''a.ts''
      = ([ex_typeError], ex_recorded)"
proof -
  let ?env = "ex_env (ex_block ''supressWhileTypeErrorsPresent'' (JBool True)) [ex_typeError]
                ex_configuration5 ([], Inr [ex_unfixable, ex_fixable])"
  have t: "truthy (config ?env ''supressWhileTypeErrorsPresent'')"
    by (simp add: ex_env_def ex_block_def)
  have p: "host_getSemanticDiagnostics ?env ''a.ts'' \<noteq> []"
    by (simp add: ex_env_def)
  from suppress_gate [OF t p, of ex_recorded] t show ?thesis
    by (simp add: ex_env_def)
qed

text \<open>
  Claim C2 as stated fails: with the option \<^verbatim>\<open>suppressWhileTypeErrorsPresent\<close> (as the
  specification spells it) set to \<^verbatim>\<open>true\<close> and one diagnostic of the host, the linter is
  run, its two failures are appended and the fixable one is recorded.
\<close>

theorem suppress_gate_counterexample:
  "truthy (config (ex_env (ex_block ''suppressWhileTypeErrorsPresent'' (JBool True)) [ex_typeError]
             ex_configuration5 ([], Inr [ex_unfixable, ex_fixable])) ''suppressWhileTypeErrorsPresent'')
   \<and> host_getSemanticDiagnostics
        (ex_env (ex_block ''suppressWhileTypeErrorsPresent'' (JBool True)) [ex_typeError]
           ex_configuration5 ([], Inr [ex_unfixable, ex_fixable])) ''a.ts'' = [ex_typeError]
   \<and> length (fst (getSemanticDiagnostics
        (ex_env (ex_block ''suppressWhileTypeErrorsPresent'' (JBool True)) [ex_typeError]
           ex_configuration5 ([], Inr [ex_unfixable, ex_fixable]))
        (create (HostWarn 0)) ''a.ts'')) = 3
   \<and> fst (getSemanticDiagnostics
        (ex_env (ex_block ''suppressWhileTypeErrorsPresent'' (JBool True)) [ex_typeError]
           ex_configuration5 ([], Inr [ex_unfixable, ex_fixable]))
        (create (HostWarn 0)) ''a.ts'') \<noteq> [ex_typeError]
   \<and> codeFixActions (snd (getSemanticDiagnostics
        (ex_env (ex_block ''suppressWhileTypeErrorsPresent'' (JBool True)) [ex_typeError]
           ex_configuration5 ([], Inr [ex_unfixable, ex_fixable]))
        (create (HostWarn 0)) ''a.ts'')) = [(''a.ts'', [(''[10,12]'', ex_fixable)])]"
  by (simp add: example_defs resolver_defs adapter_defs Let_def)

text \<open>
  Claim C4. If the operation gets as far as running the linter (the suppression gate is
  open, \<open>prepare\<close> yields a configuration) and the linter throws, the operation returns
  the host's diagnostics, the registry is the old one without the entry of the file, so
  it has no entry for the file, and the last line logged is the error.
\<close>

theorem lint_exception:
  assumes "\<not> (truthy (config env ''supressWhileTypeErrorsPresent'')
               \<and> host_getSemanticDiagnostics env fileName \<noteq> [])"
    and "prepare env s fileName = (Some cfg, s1)"
    and "snd (lint env fileName cfg) = Inl err"
  shows "fst (getSemanticDiagnostics env s fileName) = host_getSemanticDiagnostics env fileName
    \<and> codeFixActions (snd (getSemanticDiagnostics env s fileName))
        = AList.delete fileName (codeFixActions s)
    \<and> map_of (codeFixActions (snd (getSemanticDiagnostics env s fileName))) fileName = None
    \<and> last (logger (snd (getSemanticDiagnostics env s fileName)))
        = ''tslint error '' @ (case err_message err of Some m \<Rightarrow> m | None \<Rightarrow> ''unknown error'')"
proof -
  from assms(2) prepare_frame(1) [of env s fileName]
  have reg: "codeFixActions s1 = AList.delete fileName (codeFixActions s)" by simp
  have run: "runLinter env s1 fileName cfg =
    (None, (logger_info (''tslint error '' @ (case err_message err of Some m \<Rightarrow> m | None \<Rightarrow> ''unknown error''))
       (foldl console_warn_call (s1\<lparr>console_warn := CaptureWarnings\<rparr>) (fst (lint env fileName cfg))))
         \<lparr>console_warn := console_warn s1\<rparr>)"
    using assms(3) by (simp add: runLinter_def Let_def)
  have res: "getSemanticDiagnostics env s fileName =
    (host_getSemanticDiagnostics env fileName, snd (runLinter env s1 fileName cfg))"
    using assms(1,2) run by (auto simp: getSemanticDiagnostics_def Let_def)
  have none: "map_of (AList.delete fileName (codeFixActions s)) fileName = None"
    by (simp add: delete_conv')
  show ?thesis
    using reg none runLinter_frame(1) [of env s1 fileName cfg]
    by (simp add: res) (simp add: run)
qed

text \<open>The theorem on a state with a recorded failure and a linter that warns and throws.\<close>

theorem lint_exception_witness:
  "map_of (codeFixActions ex_recorded) ''a.ts'' = Some [(''[10,12]'', ex_fixable)]
   \<and> snd (lint (ex_env Map.empty [ex_typeError] ex_configuration5 ([''deprecated''], Inl ex_thrown))
             ''a.ts'' ex_configuration5) = Inl ex_thrown
   \<and> fst (getSemanticDiagnostics
        (ex_env Map.empty [ex_typeError] ex_configuration5 ([''deprecated''], Inl ex_thrown))
        ex_recorded ''a.ts'') = [ex_typeError]
   \<and> map_of (codeFixActions (snd (getSemanticDiagnostics
        (ex_env Map.empty [ex_typeError] ex_configuration5 ([''deprecated''], Inl ex_thrown))
        ex_recorded ''a.ts''))) ''a.ts'' = None
   \<and> last (logger (snd (getSemanticDiagnostics
        (ex_env Map.empty [ex_typeError] ex_configuration5 ([''deprecated''], Inl ex_thrown))
        ex_recorded ''a.ts''))) = ''tslint error boom''"
proof -
  let ?env = "ex_env Map.empty [ex_typeError] ex_configuration5 ([''deprecated''], Inl ex_thrown)"
  have g: "\<not> (truthy (config ?env ''supressWhileTypeErrorsPresent'')
               \<and> host_getSemanticDiagnostics ?env ''a.ts'' \<noteq> [])"
    by (simp add: ex_env_def)
  have "\<exists>cfg. fst (prepare ?env ex_recorded ''a.ts'') = Some cfg"
    by (simp add: ex_recorded_def example_defs resolver_defs adapter_defs Let_def)
  then obtain cfg where p: "prepare ?env ex_recorded ''a.ts'' = (Some cfg, snd (prepare ?env ex_recorded ''a.ts''))"
    by (metis prod.collapse)
  have l: "snd (lint ?env ''a.ts'' cfg) = Inl ex_thrown" for cfg
    by (simp add: ex_env_def)
  have h: "host_getSemanticDiagnostics ?env ''a.ts'' = [ex_typeError]"
    by (simp add: ex_env_def)
  have m: "err_message ex_thrown = Some ''boom''"
    by (simp add: ex_thrown_def)
  from lint_exception [OF g p l] l [of ex_configuration5] show ?thesis
    by (simp add: ex_recorded_value h m)
qed

text \<open>
  Claim C9. If the linter is run and returns no failure of the file (none at all, or
  only failures whose file name normalises to another path), the operation returns the
  host's diagnostics as they are.
\<close>

theorem no_failures_unchanged:
  assumes "prepare env s fileName = (Some cfg, s1)"
    and "snd (lint env fileName cfg) = Inr failures"
    and "\<forall>p \<in> set failures. path_normalize env (getFileName p) \<noteq> path_normalize env fileName"
  shows "fst (getSemanticDiagnostics env s fileName) = host_getSemanticDiagnostics env fileName"
proof -
  from assms(3) have "filterProblemsForDocument env fileName failures = []"
    by (simp add: filterProblemsForDocument_filter)
  then have aug: "\<And>s2. augment env s2 fileName (host_getSemanticDiagnostics env fileName) failures
      = (host_getSemanticDiagnostics env fileName, s2)"
    by (simp add: augment_def Let_def)
  have "fst (runLinter env s1 fileName cfg) = Some failures"
    using assms(2) by (simp add: runLinter_def Let_def)
  then obtain s2 where "runLinter env s1 fileName cfg = (Some failures, s2)"
    by (cases "runLinter env s1 fileName cfg") auto
  with assms(1) aug show ?thesis
    by (simp add: getSemanticDiagnostics_def Let_def)
qed

text \<open>The theorem on \<^verbatim>\<open>other.ts\<close>, for which the linter reports two failures of \<^verbatim>\<open>a.ts\<close>.\<close>

theorem no_failures_unchanged_witness:
  "snd (lint (ex_env Map.empty [ex_typeError] ex_configuration5 ([], Inr [ex_unfixable, ex_fixable]))
          ''other.ts'' ex_configuration5) = Inr [ex_unfixable, ex_fixable]
   \<and> list_all (\<lambda>p. getFileName p \<noteq> ''other.ts'') [ex_unfixable, ex_fixable]
   \<and> fst (getSemanticDiagnostics
        (ex_env Map.empty [ex_typeError] ex_configuration5 ([], Inr [ex_unfixable, ex_fixable]))
        (create (HostWarn 0)) ''other.ts'') = [ex_typeError]"
proof -
  let ?env = "ex_env Map.empty [ex_typeError] ex_configuration5 ([], Inr [ex_unfixable, ex_fixable])"
  have "\<exists>cfg. fst (prepare ?env (create (HostWarn 0)) ''other.ts'') = Some cfg"
    by (simp add: example_defs resolver_defs adapter_defs Let_def)
  then obtain cfg where p: "prepare ?env (create (HostWarn 0)) ''other.ts''
      = (Some cfg, snd (prepare ?env (create (HostWarn 0)) ''other.ts''))"
    by (metis prod.collapse)
  have l: "snd (lint ?env ''other.ts'' cfg) = Inr [ex_unfixable, ex_fixable]" for cfg
    by (simp add: ex_env_def)
  have o: "\<forall>p \<in> set [ex_unfixable, ex_fixable].
      path_normalize ?env (getFileName p) \<noteq> path_normalize ?env ''other.ts''"
    by (simp add: example_defs)
  from no_failures_unchanged [OF p l o] l [of ex_configuration5] o show ?thesis
    by (simp add: ex_env_def)
qed

lemma addRuleFailureFixAll_filter:
  assumes "\<forall>p \<in> snd ` set problems. fixable p"
  shows "addRuleFailureFixAll fixes ruleName problems fileName =
     Some (if 2 \<le> length (filter (\<lambda>p. getRuleName p = ruleName) (map snd problems))
           then fixes @
             [\<lparr>description = ''Fix all '' @ quoted (ruleNameText ruleName),
               changes =
                 map (\<lambda>p. \<lparr>ftc_fileName = fileName,
                            textChanges = map convertReplacementToTextChange (fixReplacements p)\<rparr>)
                   (filter (\<lambda>p. getRuleName p = ruleName) (map snd problems))\<rparr>]
           else fixes)"
proof -
  from assms have "\<forall>p \<in> set (map snd problems). fixable p" by simp
  from ruleFailureChanges_filter [OF this, of ruleName fileName "[]"]
  show ?thesis by (simp add: addRuleFailureFixAll_def)
qed

section \<open>The configuration cache\<close>

text \<open>
  Claim C6, amended. The cache is one slot. A lookup returns the cached configuration,
  without resolving and without changing the state, exactly when a configuration is
  cached and the cached file path is the queried one. Any other lookup resolves afresh:
  if the resolution succeeds, the slot is replaced as a whole by the path queried and
  what was resolved; if it throws, the state, and with it the slot, is left as it was.
\<close>

theorem config_cache_single_slot:
  "(cc_configuration (configCache s) \<noteq> None \<and> cc_filePath (configCache s) = Some filePath \<longrightarrow>
      getConfiguration env s filePath configFileName = (Inr (cc_configuration (configCache s)), s))
   \<and> (\<not> (cc_configuration (configCache s) \<noteq> None \<and> cc_filePath (configCache s) = Some filePath) \<longrightarrow>
        (case getConfiguration env s filePath configFileName of
           (Inl err, s') \<Rightarrow> s' = s
         | (Inr cfg, s') \<Rightarrow>
             (\<exists>r. findConfiguration env configFileName filePath = Inr r
                  \<and> removeNoUnusedVariable env (lr_results r) = Inr cfg
                  \<and> s' = s\<lparr>configCache :=
                            \<lparr>cc_filePath = Some filePath,
                             cc_configuration = cfg,
                             cc_isDefaultConfig =
                               (findConfigurationPath env configFileName filePath = Inr None),
                             cc_configFilePath = lr_path r\<rparr>\<rparr>)))"
  by (auto simp: getConfiguration_def Let_def split: sum.splits option.splits)

text \<open>The theorem on the cache for \<^verbatim>\<open>a.ts\<close>: a hit for \<^verbatim>\<open>a.ts\<close>, a miss for \<^verbatim>\<open>b.ts\<close>.\<close>

theorem config_cache_single_slot_witness:
  "cc_filePath (configCache ex_cached) = Some ''a.ts''
   \<and> getConfiguration (ex_env Map.empty [] ex_configuration4 ([], Inr [])) ex_cached ''a.ts'' None
       = (Inr (cc_configuration (configCache ex_cached)), ex_cached)
   \<and> fst (getConfiguration (ex_env Map.empty [] ex_configuration4 ([], Inr [])) ex_cached ''b.ts'' None)
       = Inr (Some ex_configuration4)
   \<and> configCache (snd (getConfiguration (ex_env Map.empty [] ex_configuration4 ([], Inr []))
                          ex_cached ''b.ts'' None))
       = \<lparr>cc_filePath = Some ''b.ts'', cc_configuration = Some ex_configuration4,
          cc_isDefaultConfig = False, cc_configFilePath = Some ''tslint.json''\<rparr>"
proof -
  let ?env = "ex_env Map.empty [] ex_configuration4 ([], Inr [])"
  have hit: "cc_configuration (configCache ex_cached) \<noteq> None
      \<and> cc_filePath (configCache ex_cached) = Some ''a.ts''"
    by (simp add: ex_cached_value)
  have miss: "\<not> (cc_configuration (configCache ex_cached) \<noteq> None
      \<and> cc_filePath (configCache ex_cached) = Some ''b.ts'')"
    by (simp add: ex_cached_value)
  have fresh: "fst (getConfiguration ?env ex_cached ''b.ts'' None) = Inr (Some ex_configuration4)"
    by (simp add: ex_cached_value example_defs resolver_defs Let_def)
  then obtain s' where g: "getConfiguration ?env ex_cached ''b.ts'' None = (Inr (Some ex_configuration4), s')"
    by (cases "getConfiguration ?env ex_cached ''b.ts'' None") auto
  note config_cache_single_slot [of ex_cached "''b.ts''" ?env None, THEN conjunct2, THEN mp, OF miss]
  then obtain r where r: "findConfiguration ?env None ''b.ts'' = Inr r"
    and s': "s' = ex_cached\<lparr>configCache :=
                            \<lparr>cc_filePath = Some ''b.ts'',
                             cc_configuration = Some ex_configuration4,
                             cc_isDefaultConfig = (findConfigurationPath ?env None ''b.ts'' = Inr None),
                             cc_configFilePath = lr_path r\<rparr>\<rparr>"
    by (auto simp only: g prod.case sum.case)
  from r have "lr_path r = Some ''tslint.json''"
    by (auto simp: ex_env_def)
  moreover have "findConfigurationPath ?env None ''b.ts'' = Inr (Some ''tslint.json'')"
    by (simp add: ex_env_def)
  ultimately have "configCache s' = \<lparr>cc_filePath = Some ''b.ts'', cc_configuration = Some ex_configuration4,
          cc_isDefaultConfig = False, cc_configFilePath = Some ''tslint.json''\<rparr>"
    by (simp add: s')
  moreover
  note config_cache_single_slot [of ex_cached "''a.ts''" ?env None, THEN conjunct1, THEN mp, OF hit]
  ultimately show ?thesis using hit fresh g by simp
qed

text \<open>
  Claim C6 as stated fails: with the configuration of \<^verbatim>\<open>a.ts\<close> cached, a lookup for
  \<^verbatim>\<open>broken.ts\<close>, which tslint cannot resolve, throws and leaves the slot to \<^verbatim>\<open>a.ts\<close>.
\<close>

theorem config_cache_counterexample:
  "cc_filePath (configCache ex_cached) = Some ''a.ts''
   \<and> cc_configuration (configCache ex_cached) \<noteq> None
   \<and> ''broken.ts'' \<noteq> ''a.ts''
   \<and> getConfiguration (ex_env Map.empty [] ex_configuration5 ([], Inr [])) ex_cached ''broken.ts'' None
       = (Inl ex_thrown, ex_cached)
   \<and> cc_filePath (configCache (snd (getConfiguration
        (ex_env Map.empty [] ex_configuration5 ([], Inr [])) ex_cached ''broken.ts'' None)))
       \<noteq> Some ''broken.ts''"
  by (simp add: ex_cached_value) (simp add: ex_cached_value example_defs resolver_defs Let_def)

text \<open>
  Claim C7, amended. After a resolution, when \<^verbatim>\<open>disableNoUnusedVariableRule\<close> is \<^verbatim>\<open>true\<close>
  or not set, the rule \<^verbatim>\<open>no-unused-variable\<close> is deleted from each of \<^verbatim>\<open>rules\<close> and
  \<^verbatim>\<open>jsRules\<close> that is a \<^verbatim>\<open>Map\<close> (tslint 5), the other rules staying as they are; a rule
  container that is a plain object (tslint before 5) or missing is left untouched. With
  any other value of the option the configuration is returned as tslint resolved it.
\<close>

theorem no_unused_variable_removed:
  assumes "getConfiguration env s filePath configFileName = (Inr cfg, s')"
    and "\<not> (cc_configuration (configCache s) \<noteq> None \<and> cc_filePath (configCache s) = Some filePath)"
  shows "\<exists>r. findConfiguration env configFileName filePath = Inr r \<and>
     (if config env ''disableNoUnusedVariableRule'' = Some (JBool True)
         \<or> config env ''disableNoUnusedVariableRule'' = None
      then \<exists>c c'. lr_results r = Some c \<and> cfg = Some c'
             \<and> linterOptions c' = linterOptions c
             \<and> (\<forall>m. rules c = Some (RulesMap m) \<longrightarrow>
                    rules c' = Some (RulesMap (filter (\<lambda>e. fst e \<noteq> ''no-unused-variable'') m)))
             \<and> (\<forall>m. jsRules c = Some (RulesMap m) \<longrightarrow>
                    jsRules c' = Some (RulesMap (filter (\<lambda>e. fst e \<noteq> ''no-unused-variable'') m)))
             \<and> ((\<forall>m. rules c \<noteq> Some (RulesMap m)) \<longrightarrow> rules c' = rules c)
             \<and> ((\<forall>m. jsRules c \<noteq> Some (RulesMap m)) \<longrightarrow> jsRules c' = jsRules c)
      else cfg = lr_results r)"
  using assms
  by (auto simp: getConfiguration_def Let_def removeNoUnusedVariable_def deleteNoUnusedVariable_def
      delete_filter split: sum.splits option.splits if_splits rules_container.splits)

text \<open>The theorem on a configuration of tslint 5, with the option not set.\<close>

theorem no_unused_variable_removed_witness:
  "config (ex_env Map.empty [] ex_configuration5 ([], Inr [])) ''disableNoUnusedVariableRule'' = None
   \<and> (\<exists>c'. fst (getConfiguration (ex_env Map.empty [] ex_configuration5 ([], Inr []))
                    (create (HostWarn 0)) ''a.ts'' None) = Inr (Some c')
            \<and> rules c' = Some (RulesMap [(''semicolon'', JBool True)])
            \<and> jsRules c' = Some (RulesMap [(''quotemark'', JBool True)]))"
proof -
  let ?env = "ex_env Map.empty [] ex_configuration5 ([], Inr [])"
  have opt: "config ?env ''disableNoUnusedVariableRule'' = None"
    by (simp add: ex_env_def)
  have miss: "\<not> (cc_configuration (configCache (create (HostWarn 0))) \<noteq> None
      \<and> cc_filePath (configCache (create (HostWarn 0))) = Some ''a.ts'')"
    by (simp add: create_def)
  have "\<exists>cfg. fst (getConfiguration ?env (create (HostWarn 0)) ''a.ts'' None) = Inr cfg"
    by (simp add: example_defs resolver_defs Let_def)
  then obtain cfg s' where g: "getConfiguration ?env (create (HostWarn 0)) ''a.ts'' None = (Inr cfg, s')"
    by (cases "getConfiguration ?env (create (HostWarn 0)) ''a.ts'' None") auto
  from no_unused_variable_removed [OF g miss] opt
  obtain r c c' where r: "findConfiguration ?env None ''a.ts'' = Inr r"
    and c: "lr_results r = Some c" and c': "cfg = Some c'"
    and rl: "\<forall>m. rules c = Some (RulesMap m) \<longrightarrow>
               rules c' = Some (RulesMap (filter (\<lambda>e. fst e \<noteq> ''no-unused-variable'') m))"
    and jl: "\<forall>m. jsRules c = Some (RulesMap m) \<longrightarrow>
               jsRules c' = Some (RulesMap (filter (\<lambda>e. fst e \<noteq> ''no-unused-variable'') m))"
    by auto
  from r c have "c = ex_configuration5" by (auto simp: ex_env_def)
  with rl jl have "rules c' = Some (RulesMap [(''semicolon'', JBool True)])"
    and "jsRules c' = Some (RulesMap [(''quotemark'', JBool True)])"
    by (simp_all add: ex_configuration5_def)
  with g c' opt show ?thesis by simp
qed

text \<open>
  Claim C7 as stated fails: with the option not set and a configuration of tslint 4,
  whose rules are plain objects, the resolved configuration still has the rule in both
  \<^verbatim>\<open>rules\<close> and \<^verbatim>\<open>jsRules\<close>.
\<close>

theorem no_unused_variable_counterexample:
  "config (ex_env Map.empty [] ex_configuration4 ([], Inr [])) ''disableNoUnusedVariableRule'' = None
   \<and> fst (getConfiguration (ex_env Map.empty [] ex_configuration4 ([], Inr []))
             (create (HostWarn 0)) ''a.ts'' None) = Inr (Some ex_configuration4)
   \<and> rules ex_configuration4
       = Some (RulesObject [(''semicolon'', JBool True), (''no-unused-variable'', JBool True)])
   \<and> jsRules ex_configuration4 = Some (RulesObject [(''no-unused-variable'', JBool True)])"
  by (simp add: example_defs resolver_defs Let_def)

lemma getNonOverlappingReplacements_fixable:
  assumes "\<forall>p \<in> snd ` set m. fixable p"
  shows "getNonOverlappingReplacements m
     = Some (overlapWalk_spec (sort_key firstStart (map snd m)) [])"
proof -
  let ?fs = "map snd m"
  let ?srt = "sort_key firstStart ?fs"
  from assms have all: "\<forall>f \<in> set ?fs. fixable f" by simp
  then have srt: "sortFailures ?fs = Some ?srt" by (rule sortFailures_fixable)
  from all have "\<forall>f \<in> set ?srt. fixable f" by simp
  then have "nonOverlappingLoop 0 ?srt [] = Some (overlapWalk_spec ?srt [])"
    by (rule nonOverlappingLoop_spec) simp
  with srt show ?thesis by (simp add: getNonOverlappingReplacements_def)
qed

lemma addAllAutoFixable_fixable:
  assumes "\<forall>p \<in> snd ` set m. fixable p"
  shows "addAllAutoFixable fixes m f = Some (fixes @ [fixAllAutoFixable_spec m f])"
  by (simp add: addAllAutoFixable_def getNonOverlappingReplacements_fixable [OF assms]
      fixAllAutoFixable_spec_def)

lemma fixesForDocument_unlocated:
  assumes "\<forall>p \<in> snd ` set m. fixable p" and "map_of m (computeKey a b) = None"
  shows "fixesForDocument env s f a b prior m = Some (prior @ [fixAllAutoFixable_spec m f])"
  using assms(2) by (simp add: fixesForDocument_def addAllAutoFixable_fixable [OF assms(1)])

lemma addRuleFailureFixAll_fixable:
  assumes "\<forall>p \<in> snd ` set m. fixable p"
  shows "\<exists>extra. addRuleFailureFixAll fixes r m f = Some (fixes @ extra)
           \<and> (\<forall>a \<in> set extra. description a = ''Fix all '' @ quoted (ruleNameText r))"
proof -
  from assms have "\<forall>p \<in> set (map snd m). fixable p" by simp
  from ruleFailureChanges_filter [OF this, of r f "[]"]
  show ?thesis by (auto simp: addRuleFailureFixAll_def)
qed

lemma fixesForDocument_located:
  assumes fx: "\<forall>p \<in> snd ` set m. fixable p"
    and p: "map_of m (computeKey a b) = Some p"
    and sf: "getSourceFile env f = Some sf"
  shows "\<exists>before after. fixesForDocument env s f a b prior m
            = Some (prior @ before @ [fixAllAutoFixable_spec m f] @ after)
          \<and> (\<forall>x \<in> set (before @ after).
                description x \<noteq> description (fixAllAutoFixable_spec m f))"
proof -
  from map_of_SomeD [OF p] fx have "fixable p" by force
  then obtain c where single: "addRuleFailureFix prior p f
      = Some (prior @ [\<lparr>description = ''Fix '' @ quoted (ruleNameText (getRuleName p)), changes = [c]\<rparr>])"
    by (auto simp: addRuleFailureFix_def problemToFileTextChange_fixable)
  let ?one = "\<lparr>description = ''Fix '' @ quoted (ruleNameText (getRuleName p)), changes = [c]\<rparr>"
  from addRuleFailureFixAll_fixable [OF fx, of "prior @ [?one]" "getRuleName p" f]
  obtain extra where all: "addRuleFailureFixAll (prior @ [?one]) (getRuleName p) m f
      = Some ((prior @ [?one]) @ extra)"
    and extra: "\<forall>x \<in> set extra. description x = ''Fix all '' @ quoted (ruleNameText (getRuleName p))"
    by blast
  obtain d where dis: "addDisableRuleFix
        (addOpenConfigurationFix ((prior @ [?one]) @ extra @ [fixAllAutoFixable_spec m f]) (configCache s))
        p f (Some sf)
      = Some (((prior @ [?one]) @ extra @ [fixAllAutoFixable_spec m f]) @ [d])"
    and d: "description d = ''Disable rule '' @ quoted (ruleNameText (getRuleName p))"
    by (auto simp: addDisableRuleFix_def addOpenConfigurationFix_def split: option.splits)
  have "fixesForDocument env s f a b prior m
      = Some (prior @ (?one # extra) @ [fixAllAutoFixable_spec m f] @ [d])"
    using p sf single all dis
    by (simp add: fixesForDocument_def addAllAutoFixable_fixable [OF fx])
  moreover have "\<forall>x \<in> set ((?one # extra) @ [d]).
      description x \<noteq> description (fixAllAutoFixable_spec m f)"
    using extra d by (auto simp: fixAllAutoFixable_spec_def quoted_def)
  ultimately show ?thesis by blast
qed

lemma fixesForDocument_no_file:
  assumes fx: "\<forall>p \<in> snd ` set m. fixable p"
    and p: "map_of m (computeKey a b) = Some p"
    and sf: "getSourceFile env f = None"
  shows "fixesForDocument env s f a b prior m = None"
proof -
  from map_of_SomeD [OF p] fx have "fixable p" by force
  then obtain fixes1 where single: "addRuleFailureFix prior p f = Some fixes1"
    by (auto simp: addRuleFailureFix_def problemToFileTextChange_fixable)
  from addRuleFailureFixAll_fixable [OF fx, of fixes1 "getRuleName p" f]
  obtain fixes2 where all: "addRuleFailureFixAll fixes1 (getRuleName p) m f = Some fixes2"
    by blast
  show ?thesis
    using p sf single all
    by (simp add: fixesForDocument_def addAllAutoFixable_fixable [OF fx] addDisableRuleFix_def)
qed

lemma registry_ok_lookup:
  assumes "registry_ok s" and "map_of (codeFixActions s) f = Some m"
  shows "\<forall>p \<in> snd ` set m. fixable p"
    and "\<forall>(k, p) \<in> set m. k = computeKey (startPosition p) (endPosition p)"
proof -
  from map_of_SomeD [OF assms(2)] have "(f, m) \<in> set (codeFixActions s)" .
  with assms(1) show "\<forall>p \<in> snd ` set m. fixable p"
    and "\<forall>(k, p) \<in> set m. k = computeKey (startPosition p) (endPosition p)"
    by (auto dest: registry_okD)
qed

lemma getCodeFixesAtPosition_document:
  assumes "\<not> (truthy (config env ''supressWhileTypeErrorsPresent'')
              \<and> host_getCodeFixesAtPosition env f a b codes \<noteq> [])"
    and "map_of (codeFixActions s) f = Some m"
  shows "fst (getCodeFixesAtPosition env s f a b codes)
     = fixesForDocument env
         (logger_info (''tslint-language-service getCodeFixes ''
            @ (case codes of [] \<Rightarrow> ''undefined'' | c # _ \<Rightarrow> show_int c)) s)
         f a b (host_getCodeFixesAtPosition env f a b codes) m"
  using assms by (auto simp: getCodeFixesAtPosition_def Let_def)

lemmas fixes_defs =
  getCodeFixesAtPosition_def fixesForDocument_def addRuleFailureFix_def addRuleFailureFixAll_def
  addAllAutoFixable_def addDisableRuleFix_def addOpenConfigurationFix_def problemToFileTextChange_def
  getNonOverlappingReplacements_def sortFailures_def getReplacement_def firstStart_def overlaps_def
  convertReplacementToTextChange_def nth_opt_def

lemma ex_recorded_reachable: "reachable ex_recorded"
  unfolding ex_recorded_def by (intro reachable.intros)

lemma ex_recorded_three_value:
  "codeFixActions ex_recorded_three = [(''a.ts'', ex_three)]"
  by (simp add: ex_recorded_three_def example_defs resolver_defs adapter_defs Let_def)

lemma ex_recorded_none_value:
  "codeFixActions ex_recorded_none = []"
  by (simp add: ex_recorded_none_def example_defs resolver_defs adapter_defs Let_def)

lemma ex_recorded_three_reachable: "reachable ex_recorded_three"
  unfolding ex_recorded_three_def by (intro reachable.intros)

lemma ex_recorded_none_reachable: "reachable ex_recorded_none"
  unfolding ex_recorded_none_def by (intro reachable.intros)

lemma fixesForDocument_located_actions:
  assumes fx: "\<forall>p \<in> snd ` set m. fixable p"
    and p: "map_of m (computeKey a b) = Some p"
    and sf: "getSourceFile env f = Some sf"
  shows "fixesForDocument env s f a b prior m =
     Some (prior
       @ [\<lparr>description = ''Fix '' @ quoted (ruleNameText (getRuleName p)),
            changes = [\<lparr>ftc_fileName = f,
                        textChanges = map convertReplacementToTextChange (fixReplacements p)\<rparr>]\<rparr>]
       @ (if 2 \<le> length (filter (\<lambda>q. getRuleName q = getRuleName p) (map snd m))
          then [\<lparr>description = ''Fix all '' @ quoted (ruleNameText (getRuleName p)),
                  changes =
                    map (\<lambda>q. \<lparr>ftc_fileName = f,
                               textChanges = map convertReplacementToTextChange (fixReplacements q)\<rparr>)
                      (filter (\<lambda>q. getRuleName q = getRuleName p) (map snd m))\<rparr>]
          else [])
       @ [fixAllAutoFixable_spec m f,
          \<lparr>description = ''Disable rule '' @ quoted (ruleNameText (getRuleName p)),
            changes =
              [\<lparr>ftc_fileName = f,
                textChanges =
                  [\<lparr>newText = ''// tslint:disable-next-line:'' @ ruleNameText (getRuleName p)
                                @ [CHR 0x0A],
                    span_start = nth_opt (getLineStarts sf) (startLine p),
                    span_length = 0\<rparr>]\<rparr>]\<rparr>])"
proof -
  from map_of_SomeD [OF p] fx have "fixable p" by force
  then have single: "addRuleFailureFix prior p f = Some (prior
       @ [\<lparr>description = ''Fix '' @ quoted (ruleNameText (getRuleName p)),
            changes = [\<lparr>ftc_fileName = f,
                        textChanges = map convertReplacementToTextChange (fixReplacements p)\<rparr>]\<rparr>])"
    by (simp add: addRuleFailureFix_def problemToFileTextChange_fixable)
  have opn: "addOpenConfigurationFix fs (configCache s) = fs" for fs
    by (simp add: addOpenConfigurationFix_def split: option.splits)
  show ?thesis
    using p sf
    by (simp add: fixesForDocument_def single addRuleFailureFixAll_filter [OF fx]
        addAllAutoFixable_fixable [OF fx] opn addDisableRuleFix_def)
qed

section \<open>The actions of the code fixes operation\<close>

text \<open>
  Claim C8. In a state the plugin can be in, when the operation locates a failure at the
  queried span (the suppression gate is open, the file has an entry in the registry, the
  host has the source file), the actions it adds to the fixes of the host are, in this
  order: the fix of the located failure; the fix of all failures of its rule, exactly
  when two or more failures recorded for the file have the rule name of the located
  failure, with one change per such failure in the order of the registry; the aggregate
  fix; the disabling comment. The located failure itself has that rule name, so the
  action is left out exactly when it is the only one.
\<close>

theorem fix_all_of_rule:
  assumes "reachable s"
    and "\<not> (truthy (config env ''supressWhileTypeErrorsPresent'')
              \<and> host_getCodeFixesAtPosition env fileName start end' errorCodes \<noteq> [])"
    and "map_of (codeFixActions s) fileName = Some documentFixes"
    and "map_of documentFixes (computeKey start end') = Some p"
    and "getSourceFile env fileName = Some sf"
  shows "1 \<le> length (filter (\<lambda>q. getRuleName q = getRuleName p) (map snd documentFixes))
    \<and> fst (getCodeFixesAtPosition env s fileName start end' errorCodes) =
        Some (host_getCodeFixesAtPosition env fileName start end' errorCodes
          @ [\<lparr>description = ''Fix '' @ quoted (ruleNameText (getRuleName p)),
               changes = [\<lparr>ftc_fileName = fileName,
                           textChanges = map convertReplacementToTextChange (fixReplacements p)\<rparr>]\<rparr>]
          @ (if 2 \<le> length (filter (\<lambda>q. getRuleName q = getRuleName p) (map snd documentFixes))
             then [\<lparr>description = ''Fix all '' @ quoted (ruleNameText (getRuleName p)),
                     changes =
                       map (\<lambda>q. \<lparr>ftc_fileName = fileName,
                                  textChanges =
                                    map convertReplacementToTextChange (fixReplacements q)\<rparr>)
                         (filter (\<lambda>q. getRuleName q = getRuleName p) (map snd documentFixes))\<rparr>]
             else [])
          @ [fixAllAutoFixable_spec documentFixes fileName,
             \<lparr>description = ''Disable rule '' @ quoted (ruleNameText (getRuleName p)),
               changes =
                 [\<lparr>ftc_fileName = fileName,
                   textChanges =
                     [\<lparr>newText = ''// tslint:disable-next-line:'' @ ruleNameText (getRuleName p)
                                   @ [CHR 0x0A],
                       span_start = nth_opt (getLineStarts sf) (startLine p),
                       span_length = 0\<rparr>]\<rparr>]\<rparr>])"
proof (intro conjI)
  from assms(1) have ok: "registry_ok s" by (rule reachable_registry_ok)
  from registry_ok_lookup(1) [OF ok assms(3)]
  have fx: "\<forall>q \<in> snd ` set documentFixes. fixable q" .
  from map_of_SomeD [OF assms(4)] have "p \<in> set (map snd documentFixes)" by force
  then have "p \<in> set (filter (\<lambda>q. getRuleName q = getRuleName p) (map snd documentFixes))"
    by simp
  then have "0 < length (filter (\<lambda>q. getRuleName q = getRuleName p) (map snd documentFixes))"
    by (rule length_pos_if_in_set)
  then show "1 \<le> length (filter (\<lambda>q. getRuleName q = getRuleName p) (map snd documentFixes))"
    by (simp only: One_nat_def Suc_le_eq)
  show "fst (getCodeFixesAtPosition env s fileName start end' errorCodes) =
        Some (host_getCodeFixesAtPosition env fileName start end' errorCodes
          @ [\<lparr>description = ''Fix '' @ quoted (ruleNameText (getRuleName p)),
               changes = [\<lparr>ftc_fileName = fileName,
                           textChanges = map convertReplacementToTextChange (fixReplacements p)\<rparr>]\<rparr>]
          @ (if 2 \<le> length (filter (\<lambda>q. getRuleName q = getRuleName p) (map snd documentFixes))
             then [\<lparr>description = ''Fix all '' @ quoted (ruleNameText (getRuleName p)),
                     changes =
                       map (\<lambda>q. \<lparr>ftc_fileName = fileName,
                                  textChanges =
                                    map convertReplacementToTextChange (fixReplacements q)\<rparr>)
                         (filter (\<lambda>q. getRuleName q = getRuleName p) (map snd documentFixes))\<rparr>]
             else [])
          @ [fixAllAutoFixable_spec documentFixes fileName,
             \<lparr>description = ''Disable rule '' @ quoted (ruleNameText (getRuleName p)),
               changes =
                 [\<lparr>ftc_fileName = fileName,
                   textChanges =
                     [\<lparr>newText = ''// tslint:disable-next-line:'' @ ruleNameText (getRuleName p)
                                   @ [CHR 0x0A],
                       span_start = nth_opt (getLineStarts sf) (startLine p),
                       span_length = 0\<rparr>]\<rparr>]\<rparr>])"
    unfolding getCodeFixesAtPosition_document [OF assms(2,3)]
    by (rule fixesForDocument_located_actions [OF fx assms(4,5)])
qed

text \<open>
  The theorem after a pass that recorded two failures of rule \<^verbatim>\<open>semicolon\<close> and one of
  \<^verbatim>\<open>quotemark\<close>, at the span of a \<^verbatim>\<open>semicolon\<close> failure and at that of the \<^verbatim>\<open>quotemark\<close>
  failure.
\<close>

theorem fix_all_of_rule_witness:
  "map_of (codeFixActions ex_recorded_three) ''a.ts'' = Some ex_three
   \<and> length (filter (\<lambda>q. getRuleName q = Some ''semicolon'') (map snd ex_three)) = 2
   \<and> map (\<lambda>x. (description x, map textChanges (changes x)))
        (the (fst (getCodeFixesAtPosition (ex_env Map.empty [] ex_configuration5 ([], Inr []))
                     ex_recorded_three ''a.ts'' 10 12 [100000])))
       = [(''Fix '' @ quoted ''semicolon'',
             [[convertReplacementToTextChange (ex_replacement 10 12)]]),
          (''Fix all '' @ quoted ''semicolon'',
             [[convertReplacementToTextChange (ex_replacement 10 12)],
              [convertReplacementToTextChange (ex_replacement 3 8)]]),
          (''Fix all auto-fixable tslint failures'',
             [[convertReplacementToTextChange (ex_replacement 0 5),
               convertReplacementToTextChange (ex_replacement 10 12)]]),
          (''Disable rule '' @ quoted ''semicolon'',
             [[\<lparr>newText = ''// tslint:disable-next-line:semicolon'' @ [CHR 0x0A],
                span_start = Some 0, span_length = 0\<rparr>]])]
   \<and> length (filter (\<lambda>q. getRuleName q = Some ''quotemark'') (map snd ex_three)) = 1
   \<and> map (\<lambda>x. (description x, map textChanges (changes x)))
        (the (fst (getCodeFixesAtPosition (ex_env Map.empty [] ex_configuration5 ([], Inr []))
                     ex_recorded_three ''a.ts'' 0 5 [100000])))
       = [(''Fix '' @ quoted ''quotemark'',
             [[convertReplacementToTextChange (ex_replacement 0 5)]]),
          (''Fix all auto-fixable tslint failures'',
             [[convertReplacementToTextChange (ex_replacement 0 5),
               convertReplacementToTextChange (ex_replacement 10 12)]]),
          (''Disable rule '' @ quoted ''quotemark'',
             [[\<lparr>newText = ''// tslint:disable-next-line:quotemark'' @ [CHR 0x0A],
                span_start = Some 0, span_length = 0\<rparr>]])]"
proof -
  let ?env = "ex_env Map.empty [] ex_configuration5 ([], Inr [])"
  have g: "\<not> (truthy (config ?env ''supressWhileTypeErrorsPresent'')
              \<and> host_getCodeFixesAtPosition ?env ''a.ts'' a b [100000] \<noteq> [])" for a b
    by (simp add: ex_env_def)
  have m: "map_of (codeFixActions ex_recorded_three) ''a.ts'' = Some ex_three"
    by (simp add: ex_recorded_three_value)
  have k1: "map_of ex_three (computeKey 10 12)
      = Some (ex_failure ''semicolon'' 10 12 (Some (FixSingle (ex_replacement 10 12))))"
    by (simp add: ex_three_def computeKey_def show_int_def show_nat.simps digit_def)
  have k2: "map_of ex_three (computeKey 0 5)
      = Some (ex_failure ''quotemark'' 0 5 (Some (FixArray [ex_replacement 0 5])))"
    by (simp add: ex_three_def computeKey_def show_int_def show_nat.simps digit_def)
  have sf: "getSourceFile ?env ''a.ts'' = Some \<lparr>sf_fileName = ''a.ts'', getLineStarts = [0, 20, 40]\<rparr>"
    by (simp add: ex_env_def)
  have h: "host_getCodeFixesAtPosition ?env ''a.ts'' a b [100000] = []" for a b
    by (simp add: ex_env_def)
  note a = fix_all_of_rule [OF ex_recorded_three_reachable g m k1 sf, THEN conjunct2]
  note b = fix_all_of_rule [OF ex_recorded_three_reachable g m k2 sf, THEN conjunct2]
  show ?thesis
    by (simp add: m a b h ruleNameText_def nth_opt_def ex_three_def ex_failure_def
        fixReplacements_def fixAllAutoFixable_spec_def firstStart_def getReplacement_def
        dropped_spec_def ex_replacement_def)
qed

text \<open>
  Claim C3, amended. The aggregate action is not attempted on every call: with the
  suppression gate closed, or with no entry for the file in the registry, the operation
  returns the fixes of the host alone. On every other call, in a state the plugin can be
  in, it is attempted whether or not a failure is recorded at the queried span: the
  overlap resolution over every failure recorded for the file succeeds, and exactly one
  aggregate action with its result, the same at every span, is added: alone after the
  host's fixes when no failure is recorded at the span, and between the actions of the
  located failure otherwise, if the host has the source file. If it has none, the
  disabling action throws after the aggregate was built, and with it the operation.
\<close>

theorem fix_all_auto_fixable:
  assumes "reachable s"
  shows "(truthy (config env ''supressWhileTypeErrorsPresent'')
            \<and> host_getCodeFixesAtPosition env fileName start end' errorCodes \<noteq> [] \<longrightarrow>
          getCodeFixesAtPosition env s fileName start end' errorCodes
            = (Some (host_getCodeFixesAtPosition env fileName start end' errorCodes), s))
    \<and> (\<not> (truthy (config env ''supressWhileTypeErrorsPresent'')
              \<and> host_getCodeFixesAtPosition env fileName start end' errorCodes \<noteq> [])
         \<and> map_of (codeFixActions s) fileName = None \<longrightarrow>
          fst (getCodeFixesAtPosition env s fileName start end' errorCodes)
            = Some (host_getCodeFixesAtPosition env fileName start end' errorCodes))
    \<and> (\<not> (truthy (config env ''supressWhileTypeErrorsPresent'')
              \<and> host_getCodeFixesAtPosition env fileName start end' errorCodes \<noteq> [])
         \<and> map_of (codeFixActions s) fileName = Some documentFixes \<longrightarrow>
          getNonOverlappingReplacements documentFixes
            = Some (overlapWalk_spec (sort_key firstStart (map snd documentFixes)) [])
          \<and> (map_of documentFixes (computeKey start end') = None \<longrightarrow>
                fst (getCodeFixesAtPosition env s fileName start end' errorCodes)
                  = Some (host_getCodeFixesAtPosition env fileName start end' errorCodes
                            @ [fixAllAutoFixable_spec documentFixes fileName]))
          \<and> (map_of documentFixes (computeKey start end') \<noteq> None
               \<and> getSourceFile env fileName \<noteq> None \<longrightarrow>
                (\<exists>before after.
                   fst (getCodeFixesAtPosition env s fileName start end' errorCodes)
                     = Some (host_getCodeFixesAtPosition env fileName start end' errorCodes
                               @ before @ [fixAllAutoFixable_spec documentFixes fileName] @ after)
                   \<and> (\<forall>x \<in> set (before @ after).
                         description x
                           \<noteq> description (fixAllAutoFixable_spec documentFixes fileName))))
          \<and> (map_of documentFixes (computeKey start end') \<noteq> None
               \<and> getSourceFile env fileName = None \<longrightarrow>
                fst (getCodeFixesAtPosition env s fileName start end' errorCodes) = None))"
proof (intro conjI impI)
  assume "truthy (config env ''supressWhileTypeErrorsPresent'')
            \<and> host_getCodeFixesAtPosition env fileName start end' errorCodes \<noteq> []"
  then show "getCodeFixesAtPosition env s fileName start end' errorCodes
            = (Some (host_getCodeFixesAtPosition env fileName start end' errorCodes), s)"
    by (simp add: getCodeFixesAtPosition_def)
next
  assume "\<not> (truthy (config env ''supressWhileTypeErrorsPresent'')
              \<and> host_getCodeFixesAtPosition env fileName start end' errorCodes \<noteq> [])
         \<and> map_of (codeFixActions s) fileName = None"
  then show "fst (getCodeFixesAtPosition env s fileName start end' errorCodes)
            = Some (host_getCodeFixesAtPosition env fileName start end' errorCodes)"
    by (auto simp: getCodeFixesAtPosition_def Let_def)
next
  assume a: "\<not> (truthy (config env ''supressWhileTypeErrorsPresent'')
              \<and> host_getCodeFixesAtPosition env fileName start end' errorCodes \<noteq> [])
         \<and> map_of (codeFixActions s) fileName = Some documentFixes"
  then have g: "\<not> (truthy (config env ''supressWhileTypeErrorsPresent'')
              \<and> host_getCodeFixesAtPosition env fileName start end' errorCodes \<noteq> [])"
    and m: "map_of (codeFixActions s) fileName = Some documentFixes"
    by blast+
  from assms have ok: "registry_ok s" by (rule reachable_registry_ok)
  from registry_ok_lookup(1) [OF ok m]
  have fx: "\<forall>p \<in> snd ` set documentFixes. fixable p" .
  note op = getCodeFixesAtPosition_document [OF g m]
  show "getNonOverlappingReplacements documentFixes
           = Some (overlapWalk_spec (sort_key firstStart (map snd documentFixes)) [])"
    using fx by (rule getNonOverlappingReplacements_fixable)
  {
    assume "map_of documentFixes (computeKey start end') = None"
    with fx show "fst (getCodeFixesAtPosition env s fileName start end' errorCodes)
            = Some (host_getCodeFixesAtPosition env fileName start end' errorCodes
                      @ [fixAllAutoFixable_spec documentFixes fileName])"
      by (simp add: op fixesForDocument_unlocated)
  }
  {
    assume "map_of documentFixes (computeKey start end') \<noteq> None \<and> getSourceFile env fileName \<noteq> None"
    then obtain p sf where p: "map_of documentFixes (computeKey start end') = Some p"
      and sf: "getSourceFile env fileName = Some sf"
      by auto
    from fixesForDocument_located [OF fx p sf]
    show "\<exists>before after.
             fst (getCodeFixesAtPosition env s fileName start end' errorCodes)
               = Some (host_getCodeFixesAtPosition env fileName start end' errorCodes
                         @ before @ [fixAllAutoFixable_spec documentFixes fileName] @ after)
             \<and> (\<forall>x \<in> set (before @ after).
                   description x \<noteq> description (fixAllAutoFixable_spec documentFixes fileName))"
      unfolding op by blast
  }
  {
    assume "map_of documentFixes (computeKey start end') \<noteq> None \<and> getSourceFile env fileName = None"
    then obtain p where p: "map_of documentFixes (computeKey start end') = Some p"
      and sf: "getSourceFile env fileName = None"
      by auto
    from fixesForDocument_no_file [OF fx p sf]
    show "fst (getCodeFixesAtPosition env s fileName start end' errorCodes) = None"
      unfolding op by simp
  }
qed

text \<open>
  The theorem after a pass that recorded three failures: with the gate closed, for a
  file without entry, at a span without recorded failure and at one with.
\<close>

theorem fix_all_auto_fixable_witness:
  "getCodeFixesAtPosition ex_env_suppressing ex_recorded_three ''a.ts'' 20 25 [100000]
     = (Some [ex_hostFix], ex_recorded_three)
   \<and> map_of (codeFixActions ex_recorded_three) ''b.ts'' = None
   \<and> fst (getCodeFixesAtPosition (ex_env Map.empty [] ex_configuration5 ([], Inr []))
             ex_recorded_three ''b.ts'' 20 25 [100000]) = Some []
   \<and> map_of (codeFixActions ex_recorded_three) ''a.ts'' = Some ex_three
   \<and> map_of ex_three (computeKey 20 25) = None
   \<and> fst (getCodeFixesAtPosition (ex_env Map.empty [] ex_configuration5 ([], Inr []))
             ex_recorded_three ''a.ts'' 20 25 [100000])
       = Some [fixAllAutoFixable_spec ex_three ''a.ts'']
   \<and> fixAllAutoFixable_spec ex_three ''a.ts''
       = \<lparr>description = ''Fix all auto-fixable tslint failures'',
          changes = [\<lparr>ftc_fileName = ''a.ts'',
                      textChanges = [convertReplacementToTextChange (ex_replacement 0 5),
                                     convertReplacementToTextChange (ex_replacement 10 12)]\<rparr>]\<rparr>
   \<and> map_of ex_three (computeKey 3 8) \<noteq> None
   \<and> (\<exists>before after.
         fst (getCodeFixesAtPosition (ex_env Map.empty [] ex_configuration5 ([], Inr []))
                ex_recorded_three ''a.ts'' 3 8 [100000])
           = Some (before @ [fixAllAutoFixable_spec ex_three ''a.ts''] @ after))"
proof -
  let ?env = "ex_env Map.empty [] ex_configuration5 ([], Inr [])"
  note r = ex_recorded_three_reachable
  have closed: "truthy (config ex_env_suppressing ''supressWhileTypeErrorsPresent'')
      \<and> host_getCodeFixesAtPosition ex_env_suppressing ''a.ts'' 20 25 [100000] \<noteq> []"
    by (simp add: ex_env_suppressing_def ex_env_def ex_block_def)
  have hs: "host_getCodeFixesAtPosition ex_env_suppressing ''a.ts'' 20 25 [100000] = [ex_hostFix]"
    by (simp add: ex_env_suppressing_def ex_env_def)
  have g: "\<not> (truthy (config ?env ''supressWhileTypeErrorsPresent'')
              \<and> host_getCodeFixesAtPosition ?env f a b [100000] \<noteq> [])" for f a b
    by (simp add: ex_env_def)
  have h: "host_getCodeFixesAtPosition ?env f a b [100000] = []" for f a b
    by (simp add: ex_env_def)
  have mb: "map_of (codeFixActions ex_recorded_three) ''b.ts'' = None"
    and ma: "map_of (codeFixActions ex_recorded_three) ''a.ts'' = Some ex_three"
    by (simp_all add: ex_recorded_three_value)
  have k1: "map_of ex_three (computeKey 20 25) = None"
    and k2: "map_of ex_three (computeKey 3 8) \<noteq> None"
    by (simp_all add: ex_three_def computeKey_def show_int_def show_nat.simps digit_def)
  have sf: "getSourceFile ?env ''a.ts'' \<noteq> None" by (simp add: ex_env_def)
  have agg: "fixAllAutoFixable_spec ex_three ''a.ts''
      = \<lparr>description = ''Fix all auto-fixable tslint failures'',
         changes = [\<lparr>ftc_fileName = ''a.ts'',
                     textChanges = [convertReplacementToTextChange (ex_replacement 0 5),
                                    convertReplacementToTextChange (ex_replacement 10 12)]\<rparr>]\<rparr>"
    by (simp add: fixAllAutoFixable_spec_def ex_three_def ex_failure_def firstStart_def
        getReplacement_def fixReplacements_def dropped_spec_def ex_replacement_def)
  from fix_all_auto_fixable [OF r, of ex_env_suppressing "''a.ts''" 20 25 "[100000]",
      THEN conjunct1, THEN mp, OF closed] hs
  have c1: "getCodeFixesAtPosition ex_env_suppressing ex_recorded_three ''a.ts'' 20 25 [100000]
     = (Some [ex_hostFix], ex_recorded_three)"
    by simp
  from fix_all_auto_fixable [OF r, of ?env "''b.ts''" 20 25 "[100000]",
      THEN conjunct2, THEN conjunct1, THEN mp, OF conjI [OF g mb]] h
  have c2: "fst (getCodeFixesAtPosition ?env ex_recorded_three ''b.ts'' 20 25 [100000]) = Some []"
    by simp
  note c3 = fix_all_auto_fixable [OF r, of ?env "''a.ts''" _ _ "[100000]" ex_three,
      THEN conjunct2, THEN conjunct2, THEN mp, OF conjI [OF g ma]]
  from c3 [of 20 25, THEN conjunct2, THEN conjunct1, THEN mp, OF k1] h
  have c4: "fst (getCodeFixesAtPosition ?env ex_recorded_three ''a.ts'' 20 25 [100000])
       = Some [fixAllAutoFixable_spec ex_three ''a.ts'']"
    by simp
  from c3 [of 3 8, THEN conjunct2, THEN conjunct2, THEN conjunct1, THEN mp, OF conjI [OF k2 sf]] h
  have c5: "\<exists>before after.
         fst (getCodeFixesAtPosition ?env ex_recorded_three ''a.ts'' 3 8 [100000])
           = Some (before @ [fixAllAutoFixable_spec ex_three ''a.ts''] @ after)"
    by auto
  from c1 mb c2 ma k1 c4 agg k2 c5 show ?thesis by (intro conjI)
qed

text \<open>
  Claim C3 as stated fails: on the state after \<^verbatim>\<open>create\<close>, and on the state after a pass
  whose only failure has no fix (at its span), the operation returns no fix at all, so
  no aggregate one.
\<close>

theorem fix_all_auto_fixable_counterexample:
  "reachable (create (HostWarn 0))
   \<and> fst (getCodeFixesAtPosition (ex_env Map.empty [] ex_configuration5 ([], Inr []))
             (create (HostWarn 0)) ''a.ts'' 0 5 [100000]) = Some []
   \<and> reachable ex_recorded_none
   \<and> fst (getSemanticDiagnostics
             (ex_env Map.empty [] ex_configuration5 ([], Inr [ex_unfixable]))
             (create (HostWarn 0)) ''a.ts'')
       = [makeDiagnostic (ex_env Map.empty [] ex_configuration5 ([], Inr [ex_unfixable]))
            ex_unfixable (Some \<lparr>sf_fileName = ''a.ts'', getLineStarts = [0, 20, 40]\<rparr>)]
   \<and> startPosition ex_unfixable = 0
   \<and> endPosition ex_unfixable = 5
   \<and> fst (getCodeFixesAtPosition (ex_env Map.empty [] ex_configuration5 ([], Inr []))
             ex_recorded_none ''a.ts'' 0 5 [100000]) = Some []"
proof -
  have "reachable (create (HostWarn 0))" by (rule reachable_create)
  moreover note ex_recorded_none_reachable
  moreover have "fst (getCodeFixesAtPosition (ex_env Map.empty [] ex_configuration5 ([], Inr []))
             (create (HostWarn 0)) ''a.ts'' 0 5 [100000]) = Some []"
    by (simp add: getCodeFixesAtPosition_def Let_def ex_env_def create_def logger_info_def)
  moreover have "fst (getCodeFixesAtPosition (ex_env Map.empty [] ex_configuration5 ([], Inr []))
             ex_recorded_none ''a.ts'' 0 5 [100000]) = Some []"
    by (simp add: getCodeFixesAtPosition_def Let_def ex_env_def ex_recorded_none_value)
  moreover have "fst (getSemanticDiagnostics
             (ex_env Map.empty [] ex_configuration5 ([], Inr [ex_unfixable]))
             (create (HostWarn 0)) ''a.ts'')
       = [makeDiagnostic (ex_env Map.empty [] ex_configuration5 ([], Inr [ex_unfixable]))
            ex_unfixable (Some \<lparr>sf_fileName = ''a.ts'', getLineStarts = [0, 20, 40]\<rparr>)]"
    by (simp add: example_defs resolver_defs adapter_defs Let_def)
  moreover have "startPosition ex_unfixable = 0" "endPosition ex_unfixable = 5"
    by (simp_all add: ex_unfixable_def ex_failure_def)
  ultimately show ?thesis by (intro conjI)
qed

section \<open>Failures without a fix\<close>

text \<open>
  Claim C10, amended. In every state the plugin can be in, every failure stored in the
  registry has a fix whose replacement list is not empty, and is stored under the key of
  its own span; \<open>recordCodeAction\<close> leaves the state as it is for a failure without a
  fix or with an empty replacement list. Consequently the code fixes operation never
  locates such a failure: at a span at which no recorded failure lies it adds neither
  the single fix, nor the fix of all failures of the rule, nor the disabling comment.
  What it adds to the fixes of the host is the fix-all-auto-fixable action alone, which
  it offers whenever the file has an entry in the registry; with the suppression gate
  closed it adds nothing at any span.
\<close>

theorem unfixable_never_recorded:
  "(reachable s \<longrightarrow>
      (\<forall>fileName documentFixes k p.
         (fileName, documentFixes) \<in> set (codeFixActions s) \<and> (k, p) \<in> set documentFixes \<longrightarrow>
           (\<exists>fx. getFix p = Some fx \<and> getReplacements fx \<noteq> [])
           \<and> k = computeKey (startPosition p) (endPosition p)))
   \<and> ((getFix p = None \<or> (\<exists>fx. getFix p = Some fx \<and> getReplacements fx = [])) \<longrightarrow>
        recordCodeAction p file s = Inr s)
   \<and> (reachable s
        \<and> \<not> (truthy (config env ''supressWhileTypeErrorsPresent'')
               \<and> host_getCodeFixesAtPosition env fileName start end' errorCodes \<noteq> [])
        \<and> (\<forall>documentFixes q. map_of (codeFixActions s) fileName = Some documentFixes
               \<and> q \<in> snd ` set documentFixes \<longrightarrow>
               \<not> (startPosition q = start \<and> endPosition q = end')) \<longrightarrow>
        fst (getCodeFixesAtPosition env s fileName start end' errorCodes)
          = Some (host_getCodeFixesAtPosition env fileName start end' errorCodes
                    @ (case map_of (codeFixActions s) fileName of
                         None \<Rightarrow> []
                       | Some documentFixes \<Rightarrow> [fixAllAutoFixable_spec documentFixes fileName])))
   \<and> (truthy (config env ''supressWhileTypeErrorsPresent'')
        \<and> host_getCodeFixesAtPosition env fileName start end' errorCodes \<noteq> [] \<longrightarrow>
        getCodeFixesAtPosition env s fileName start end' errorCodes
          = (Some (host_getCodeFixesAtPosition env fileName start end' errorCodes), s))"
proof (intro conjI impI allI)
  fix fileName documentFixes k p
  assume r: "reachable s"
    and "(fileName, documentFixes) \<in> set (codeFixActions s) \<and> (k, p) \<in> set documentFixes"
  then have "fixable p" and "k = computeKey (startPosition p) (endPosition p)"
    using reachable_registry_ok [OF r] by (auto dest: registry_okD)
  then show "\<exists>fx. getFix p = Some fx \<and> getReplacements fx \<noteq> []"
    and "k = computeKey (startPosition p) (endPosition p)"
    by (simp_all add: fixable_iff)
next
  assume "getFix p = None \<or> (\<exists>fx. getFix p = Some fx \<and> getReplacements fx = [])"
  then show "recordCodeAction p file s = Inr s"
    by (auto simp: recordCodeAction_def replacementsAreEmpty_iff)
next
  assume a: "reachable s
        \<and> \<not> (truthy (config env ''supressWhileTypeErrorsPresent'')
               \<and> host_getCodeFixesAtPosition env fileName start end' errorCodes \<noteq> [])
        \<and> (\<forall>documentFixes q. map_of (codeFixActions s) fileName = Some documentFixes
               \<and> q \<in> snd ` set documentFixes \<longrightarrow>
               \<not> (startPosition q = start \<and> endPosition q = end'))"
  then have ok: "registry_ok s" by (simp add: reachable_registry_ok)
  from a have g: "\<not> (truthy (config env ''supressWhileTypeErrorsPresent'')
               \<and> host_getCodeFixesAtPosition env fileName start end' errorCodes \<noteq> [])"
    by blast
  show "fst (getCodeFixesAtPosition env s fileName start end' errorCodes)
          = Some (host_getCodeFixesAtPosition env fileName start end' errorCodes
                    @ (case map_of (codeFixActions s) fileName of
                         None \<Rightarrow> []
                       | Some documentFixes \<Rightarrow> [fixAllAutoFixable_spec documentFixes fileName]))"
  proof (cases "map_of (codeFixActions s) fileName")
    case None
    with g show ?thesis by (auto simp: getCodeFixesAtPosition_def Let_def)
  next
    case (Some m)
    note fx = registry_ok_lookup(1) [OF ok Some] and keyed = registry_ok_lookup(2) [OF ok Some]
    have "map_of m (computeKey start end') = None"
    proof (rule ccontr)
      assume "map_of m (computeKey start end') \<noteq> None"
      then obtain q where "map_of m (computeKey start end') = Some q" by auto
      then have q: "(computeKey start end', q) \<in> set m" by (rule map_of_SomeD)
      with keyed have "computeKey start end' = computeKey (startPosition q) (endPosition q)"
        by auto
      then have "startPosition q = start \<and> endPosition q = end'"
        by (auto dest: computeKey_inj)
      moreover from q have "q \<in> snd ` set m" by force
      ultimately show False using a Some by blast
    qed
    with fx show ?thesis
      by (simp add: getCodeFixesAtPosition_document [OF g Some] Some fixesForDocument_unlocated)
  qed
next
  assume "truthy (config env ''supressWhileTypeErrorsPresent'')
        \<and> host_getCodeFixesAtPosition env fileName start end' errorCodes \<noteq> []"
  then show "getCodeFixesAtPosition env s fileName start end' errorCodes
          = (Some (host_getCodeFixesAtPosition env fileName start end' errorCodes), s)"
    by (simp add: getCodeFixesAtPosition_def)
qed

text \<open>
  The theorem after a diagnostics pass that reported a failure without fix at \<open>[0,5]\<close>
  and a fixable one at \<open>[10,12]\<close>.
\<close>

theorem unfixable_never_recorded_witness:
  "reachable ex_recorded
   \<and> getFix ex_unfixable = None
   \<and> recordCodeAction ex_unfixable None ex_recorded = Inr ex_recorded
   \<and> codeFixActions ex_recorded = [(''a.ts'', [(''[10,12]'', ex_fixable)])]
   \<and> (\<exists>fx. getFix ex_fixable = Some fx \<and> getReplacements fx \<noteq> [])
   \<and> ''[10,12]'' = computeKey (startPosition ex_fixable) (endPosition ex_fixable)
   \<and> fst (getCodeFixesAtPosition (ex_env Map.empty [] ex_configuration5 ([], Inr []))
             ex_recorded ''a.ts'' 0 5 [100000])
       = Some [fixAllAutoFixable_spec [(''[10,12]'', ex_fixable)] ''a.ts'']"
proof -
  let ?env = "ex_env Map.empty [] ex_configuration5 ([], Inr [])"
  note inst = unfixable_never_recorded
    [of ex_recorded ex_unfixable None ?env "''a.ts''" 0 5 "[100000]"]
  have r: "reachable ex_recorded" by (rule ex_recorded_reachable)
  have nofix: "getFix ex_unfixable = None"
    by (simp add: ex_unfixable_def ex_failure_def)
  have stored: "(''a.ts'', [(''[10,12]'', ex_fixable)]) \<in> set (codeFixActions ex_recorded)
      \<and> (''[10,12]'', ex_fixable) \<in> set [(''[10,12]'', ex_fixable)]"
    by (simp add: ex_recorded_value)
  from inst [THEN conjunct1, THEN mp, OF r] stored
  have inv: "(\<exists>fx. getFix ex_fixable = Some fx \<and> getReplacements fx \<noteq> [])
      \<and> ''[10,12]'' = computeKey (startPosition ex_fixable) (endPosition ex_fixable)"
    by blast
  from inst [THEN conjunct2, THEN conjunct1] nofix
  have never: "recordCodeAction ex_unfixable None ex_recorded = Inr ex_recorded"
    by blast
  have hyp: "reachable ex_recorded
        \<and> \<not> (truthy (config ?env ''supressWhileTypeErrorsPresent'')
               \<and> host_getCodeFixesAtPosition ?env ''a.ts'' 0 5 [100000] \<noteq> [])
        \<and> (\<forall>documentFixes q. map_of (codeFixActions ex_recorded) ''a.ts'' = Some documentFixes
               \<and> q \<in> snd ` set documentFixes \<longrightarrow>
               \<not> (startPosition q = 0 \<and> endPosition q = 5))"
    using r by (simp add: ex_recorded_value ex_env_def ex_fixable_def ex_failure_def)
  from inst [THEN conjunct2, THEN conjunct2, THEN conjunct1, THEN mp, OF hyp]
  have "fst (getCodeFixesAtPosition ?env ex_recorded ''a.ts'' 0 5 [100000])
       = Some [fixAllAutoFixable_spec [(''[10,12]'', ex_fixable)] ''a.ts'']"
    by (simp add: ex_recorded_value ex_env_def)
  with r nofix never inv show ?thesis by (simp add: ex_recorded_value)
qed

text \<open>
  Claim C10 as stated fails: after that pass, at the span of the failure without fix,
  the operation offers the fix-all-auto-fixable action.
\<close>

theorem unfixable_never_recorded_counterexample:
  "snd (lint (ex_env Map.empty [] ex_configuration5 ([], Inr [ex_unfixable, ex_fixable]))
          ''a.ts'' ex_configuration5) = Inr [ex_unfixable, ex_fixable]
   \<and> getFix ex_unfixable = None
   \<and> startPosition ex_unfixable = 0
   \<and> endPosition ex_unfixable = 5
   \<and> fst (getCodeFixesAtPosition (ex_env Map.empty [] ex_configuration5 ([], Inr []))
             (snd (getSemanticDiagnostics
                     (ex_env Map.empty [] ex_configuration5 ([], Inr [ex_unfixable, ex_fixable]))
                     (create (HostWarn 0)) ''a.ts''))
             ''a.ts'' 0 5 [100000])
       = Some [\<lparr>description = ''Fix all auto-fixable tslint failures'',
                 changes = [\<lparr>ftc_fileName = ''a.ts'',
                             textChanges = [\<lparr>newText = ''x'', span_start = Some 10,
                                             span_length = 2\<rparr>]\<rparr>]\<rparr>]"
  by (simp add: example_defs resolver_defs adapter_defs fixes_defs Let_def)

end
